theory Spec2Isabelle
  imports Main
begin

section \<open>JavaScript values\<close>

text \<open>
  The module \<^verbatim>\<open>09-functions-n-closures-tasks.js\<close> is a set of closure factories. Its
  functions receive and return JavaScript values, so the embedding starts with the
  fragment of the value universe that the module's code and documentation use.

  Numbers are the doubles whose value is an integer (the documentation types
  coefficients and counters as integers), together with \<open>-0\<close>, the two infinities and
  \<^verbatim>\<open>NaN\<close>. \<open>Fin i\<close> stands for the double of value \<open>i\<close>; every integer of magnitude up
  to \<open>2^53\<close> is one, beyond that only the multiples of the unit in the last place are.
  Sums and products of such doubles are again integers, and the arithmetic below rounds
  them as IEEE 754 does (to nearest, ties to even, overflow to infinity), so every
  number the functions below compute from doubles is a double. Doubles with a fraction
  are outside the fragment.

  An array carries the address of the array object beside its elements, because
  JavaScript compares objects by reference: two arrays with equal elements are still
  two different \<^verbatim>\<open>Map\<close> keys.
\<close>

datatype jsnum = Fin int | NegZero | PosInf | NegInf | NaN

datatype jsval =
    Undefined
  | Null
  | Bool bool
  | Num jsnum
  | Str string
  | Arr nat "jsval list"

text \<open>
  A completed call either returns a value or throws. \<open>TypeError\<close> is the error the
  engine itself raises (calling something that is not a function, reading a property of
  \<^verbatim>\<open>undefined\<close>); \<open>Thrown v\<close> is a \<^verbatim>\<open>throw v\<close> of user code.
\<close>

datatype js_error = TypeError | Thrown jsval

text \<open>
  A function object: its \<^verbatim>\<open>name\<close> property and its behaviour. The behaviour takes the
  argument list and the state of the rest of the program (\<open>'s\<close>: whatever the function
  reads and writes outside the closure that wraps it) and gives the outcome and the
  new state.
\<close>

record 's jsfunc =
  name :: string
  body :: "jsval list \<Rightarrow> 's \<Rightarrow> (js_error + jsval) \<times> 's"

definition call :: "'s jsfunc \<Rightarrow> jsval list \<Rightarrow> 's \<Rightarrow> (js_error + jsval) \<times> 's" where
  "call f args s = body f args s"

subsection \<open>Rounding\<close>

text \<open>The number of binary digits of a natural number.\<close>

function bit_length :: "nat \<Rightarrow> nat" where
  "bit_length n = (if n = 0 then 0 else Suc (bit_length (n div 2)))"
  by pat_completeness auto
termination
  by (relation "measure (\<lambda>n. n)") auto

declare bit_length.simps [simp del]

text \<open>
  The magnitude of the double nearest to the natural number \<open>m\<close>, with an unbounded
  exponent. Below \<open>2^53\<close> every natural number is a double. From there on a double has
  53 significant binary digits: with \<open>u\<close> the unit in the last place, \<open>m\<close> lies between
  \<open>q * u\<close> and \<open>(q + 1) * u\<close> and goes to the nearer of the two, to the one with the
  even significand when it is halfway.
\<close>

definition round_nat :: "nat \<Rightarrow> nat" where
  "round_nat m =
     (if m < 2 ^ 53 then m
      else
        (let u = 2 ^ (bit_length m - 53); q = m div u; r = m mod u
         in (if 2 * r < u then q
             else if u < 2 * r then q + 1
             else if even q then q else q + 1) * u))"

text \<open>
  The double nearest to the integer \<open>i\<close>: a rounded magnitude of \<open>2^1024\<close> or more is
  an overflow and gives an infinity. The integer 0 is \<open>+0\<close>.
\<close>

definition round_double :: "int \<Rightarrow> jsnum" where
  "round_double i =
     (let m = round_nat (nat \<bar>i\<bar>) in
      if 2 ^ 1024 \<le> m then (if i < 0 then NegInf else PosInf)
      else Fin (if i < 0 then - int m else int m))"

subsection \<open>Equality\<close>

text \<open>\<^verbatim>\<open>Number::equal\<close>: \<^verbatim>\<open>NaN\<close> equals nothing, the two zeros are equal.\<close>

fun num_eq :: "jsnum \<Rightarrow> jsnum \<Rightarrow> bool" where
  "num_eq NaN y = False"
| "num_eq x NaN = False"
| "num_eq (Fin a) (Fin b) = (a = b)"
| "num_eq (Fin a) NegZero = (a = 0)"
| "num_eq NegZero (Fin b) = (b = 0)"
| "num_eq NegZero NegZero = True"
| "num_eq PosInf PosInf = True"
| "num_eq NegInf NegInf = True"
| "num_eq x y = False"

text \<open>\<^verbatim>\<open>Number::sameValueZero\<close>: as \<open>num_eq\<close>, but \<^verbatim>\<open>NaN\<close> is the same value as \<^verbatim>\<open>NaN\<close>.\<close>

fun num_same_value_zero :: "jsnum \<Rightarrow> jsnum \<Rightarrow> bool" where
  "num_same_value_zero NaN NaN = True"
| "num_same_value_zero NaN y = False"
| "num_same_value_zero x NaN = False"
| "num_same_value_zero x y = num_eq x y"

text \<open>The operator \<^verbatim>\<open>===\<close> (IsStrictlyEqual). Objects are equal when they are the same object.\<close>

fun strict_eq :: "jsval \<Rightarrow> jsval \<Rightarrow> bool" where
  "strict_eq Undefined Undefined = True"
| "strict_eq Null Null = True"
| "strict_eq (Bool a) (Bool b) = (a = b)"
| "strict_eq (Num x) (Num y) = num_eq x y"
| "strict_eq (Str s) (Str t) = (s = t)"
| "strict_eq (Arr a xs) (Arr b ys) = (a = b)"
| "strict_eq v w = False"

text \<open>SameValueZero, the comparison of \<^verbatim>\<open>Map\<close> keys.\<close>

fun same_value_zero :: "jsval \<Rightarrow> jsval \<Rightarrow> bool" where
  "same_value_zero Undefined Undefined = True"
| "same_value_zero Null Null = True"
| "same_value_zero (Bool a) (Bool b) = (a = b)"
| "same_value_zero (Num x) (Num y) = num_same_value_zero x y"
| "same_value_zero (Str s) (Str t) = (s = t)"
| "same_value_zero (Arr a xs) (Arr b ys) = (a = b)"
| "same_value_zero v w = False"

subsection \<open>Conversions\<close>

text \<open>ToBoolean, as the condition of an \<^verbatim>\<open>if\<close> applies it.\<close>

fun truthy :: "jsval \<Rightarrow> bool" where
  "truthy Undefined = False"
| "truthy Null = False"
| "truthy (Bool b) = b"
| "truthy (Num (Fin i)) = (i \<noteq> 0)"
| "truthy (Num NegZero) = False"
| "truthy (Num PosInf) = True"
| "truthy (Num NegInf) = True"
| "truthy (Num NaN) = False"
| "truthy (Str s) = (s \<noteq> [])"
| "truthy (Arr a xs) = True"

text \<open>Decimal digits of a natural number, most significant first.\<close>

definition digit_char :: "nat \<Rightarrow> char" where
  "digit_char d = ''0123456789'' ! d"

function digits :: "nat \<Rightarrow> string" where
  "digits n = (if n < 10 then [digit_char n] else digits (n div 10) @ [digit_char (n mod 10)])"
  by pat_completeness auto
termination
  by (relation "measure (\<lambda>n. n)") auto

declare digits.simps [simp del]

definition int_to_string :: "int \<Rightarrow> string" where
  "int_to_string i = (if i < 0 then CHR ''-'' # digits (nat (- i)) else digits (nat i))"

text \<open>
  \<^verbatim>\<open>Number::toString\<close>: the decimal digits of an integer. The engine prints a magnitude
  of \<open>10^21\<close> or more in exponent notation, which is not modelled; no statement below
  prints a number of that size.
\<close>

fun num_to_string :: "jsnum \<Rightarrow> string" where
  "num_to_string (Fin i) = int_to_string i"
| "num_to_string NegZero = ''0''"
| "num_to_string PosInf = ''Infinity''"
| "num_to_string NegInf = ''-Infinity''"
| "num_to_string NaN = ''NaN''"

text \<open>
  ToString, and \<^verbatim>\<open>Array.prototype.join\<close>, which an array's own \<^verbatim>\<open>toString\<close> calls
  with a comma: an element that is \<^verbatim>\<open>undefined\<close> or \<^verbatim>\<open>null\<close> contributes the empty
  string, every other element its ToString.
\<close>

fun to_string :: "jsval \<Rightarrow> string"
  and join_element :: "jsval \<Rightarrow> string"
  and join :: "string \<Rightarrow> jsval list \<Rightarrow> string" where
  "to_string Undefined = ''undefined''"
| "to_string Null = ''null''"
| "to_string (Bool b) = (if b then ''true'' else ''false'')"
| "to_string (Num x) = num_to_string x"
| "to_string (Str s) = s"
| "to_string (Arr a xs) = join '','' xs"
| "join_element Undefined = []"
| "join_element Null = []"
| "join_element (Bool b) = to_string (Bool b)"
| "join_element (Num x) = to_string (Num x)"
| "join_element (Str s) = to_string (Str s)"
| "join_element (Arr a xs) = to_string (Arr a xs)"
| "join sep [] = []"
| "join sep [v] = join_element v"
| "join sep (v # w # vs) = join_element v @ sep @ join sep (w # vs)"

text \<open>
  StringToNumber on the integer numerals: surrounding (ASCII) white space is dropped,
  the empty string is \<open>+0\<close>, an optionally signed run of decimal digits is the double
  nearest to its value, an optionally signed \<^verbatim>\<open>Infinity\<close> is that infinity, anything else
  is \<^verbatim>\<open>NaN\<close>. Numerals with a fraction, an exponent or a radix prefix denote doubles the
  engine would compute; they are outside the fragment, and no statement below depends
  on them.
\<close>

definition is_space :: "char \<Rightarrow> bool" where
  "is_space c = (c \<in> set [CHR '' '', CHR 0x09, CHR 0x0A, CHR 0x0B, CHR 0x0C, CHR 0x0D])"

definition is_digit :: "char \<Rightarrow> bool" where
  "is_digit c = (48 \<le> (of_char c :: nat) \<and> (of_char c :: nat) \<le> 57)"

definition trim :: "string \<Rightarrow> string" where
  "trim s = rev (dropWhile is_space (rev (dropWhile is_space s)))"

definition digits_value :: "string \<Rightarrow> nat" where
  "digits_value ds = foldl (\<lambda>acc c. 10 * acc + ((of_char c :: nat) - 48)) 0 ds"

definition string_to_number :: "string \<Rightarrow> jsnum" where
  "string_to_number s =
     (case trim s of
        [] \<Rightarrow> Fin 0
      | c # cs \<Rightarrow>
          if c # cs = ''Infinity'' \<or> c # cs = ''+Infinity'' then PosInf
          else if c # cs = ''-Infinity'' then NegInf
          else if c = CHR ''-'' \<and> cs \<noteq> [] \<and> list_all is_digit cs then
            (if digits_value cs = 0 then NegZero else round_double (- int (digits_value cs)))
          else if c = CHR ''+'' \<and> cs \<noteq> [] \<and> list_all is_digit cs
            then round_double (int (digits_value cs))
          else if list_all is_digit (c # cs) then round_double (int (digits_value (c # cs)))
          else NaN)"

text \<open>ToNumber. An array is first converted to its string (ToPrimitive).\<close>

fun to_number :: "jsval \<Rightarrow> jsnum" where
  "to_number Undefined = NaN"
| "to_number Null = Fin 0"
| "to_number (Bool b) = Fin (if b then 1 else 0)"
| "to_number (Num x) = x"
| "to_number (Str s) = string_to_number s"
| "to_number (Arr a xs) = string_to_number (to_string (Arr a xs))"

subsection \<open>Arithmetic\<close>

text \<open>The parts of a number: whether it is a zero, an infinity, its sign, its value.\<close>

fun is_zero :: "jsnum \<Rightarrow> bool" where
  "is_zero (Fin i) = (i = 0)"
| "is_zero NegZero = True"
| "is_zero x = False"

fun is_infinite :: "jsnum \<Rightarrow> bool" where
  "is_infinite PosInf = True"
| "is_infinite NegInf = True"
| "is_infinite x = False"

fun is_negative :: "jsnum \<Rightarrow> bool" where
  "is_negative (Fin i) = (i < 0)"
| "is_negative NegZero = True"
| "is_negative NegInf = True"
| "is_negative x = False"

fun int_value :: "jsnum \<Rightarrow> int" where
  "int_value (Fin i) = i"
| "int_value x = 0"

text \<open>
  \<^verbatim>\<open>Number::multiply\<close>: \<^verbatim>\<open>NaN\<close> when an operand is \<^verbatim>\<open>NaN\<close> or the operands are a zero
  and an infinity; otherwise the sign is negative when exactly one operand is negative,
  and the result is an infinity when an operand is one, a zero when an operand is one,
  and else the rounded product.
\<close>

definition num_mul :: "jsnum \<Rightarrow> jsnum \<Rightarrow> jsnum" where
  "num_mul x y =
     (if x = NaN \<or> y = NaN then NaN
      else if is_infinite x \<or> is_infinite y then
        (if is_zero x \<or> is_zero y then NaN
         else if is_negative x = is_negative y then PosInf else NegInf)
      else if is_zero x \<or> is_zero y then
        (if is_negative x = is_negative y then Fin 0 else NegZero)
      else round_double (int_value x * int_value y))"

text \<open>
  \<^verbatim>\<open>Number::add\<close>: \<^verbatim>\<open>NaN\<close> when an operand is \<^verbatim>\<open>NaN\<close> or the operands are the two
  different infinities; an infinity when an operand is one; \<open>-0\<close> when both operands are
  \<open>-0\<close>; and else the rounded sum, which is \<open>+0\<close> when the sum is zero.
\<close>

definition num_add :: "jsnum \<Rightarrow> jsnum \<Rightarrow> jsnum" where
  "num_add x y =
     (if x = NaN \<or> y = NaN then NaN
      else if is_infinite x \<and> is_infinite y then (if x = y then x else NaN)
      else if is_infinite x then x
      else if is_infinite y then y
      else if x = NegZero \<and> y = NegZero then NegZero
      else round_double (int_value x + int_value y))"

text \<open>The operator \<^verbatim>\<open>*\<close>: both operands go through ToNumber.\<close>

definition js_mul :: "jsval \<Rightarrow> jsval \<Rightarrow> jsval" where
  "js_mul a b = Num (num_mul (to_number a) (to_number b))"

text \<open>
  The operator \<^verbatim>\<open>+\<close>: when either operand's primitive is a string (a string, or an
  array, whose primitive is its string) the result is the concatenation of the two
  strings, otherwise the sum of the two numbers.
\<close>

fun has_string_primitive :: "jsval \<Rightarrow> bool" where
  "has_string_primitive (Str s) = True"
| "has_string_primitive (Arr a xs) = True"
| "has_string_primitive v = False"

definition js_add :: "jsval \<Rightarrow> jsval \<Rightarrow> jsval" where
  "js_add a b =
     (if has_string_primitive a \<or> has_string_primitive b
      then Str (to_string a @ to_string b)
      else Num (num_add (to_number a) (to_number b)))"

subsection \<open>Arrays\<close>

text \<open>
  Reading an index that the array does not have gives \<^verbatim>\<open>undefined\<close>; writing past the
  end extends the array, the skipped positions being holes, which read as
  \<^verbatim>\<open>undefined\<close>.
\<close>

definition js_index :: "jsval list \<Rightarrow> int \<Rightarrow> jsval" where
  "js_index xs i = (if 0 \<le> i \<and> i < int (length xs) then xs ! nat i else Undefined)"

definition js_store :: "jsval list \<Rightarrow> nat \<Rightarrow> jsval \<Rightarrow> jsval list" where
  "js_store xs i v =
     (if i < length xs then xs[i := v]
      else xs @ replicate (i - length xs) Undefined @ [v])"

text \<open>\<^verbatim>\<open>xs.slice(0, e)\<close>: a negative end counts from the end of the array.\<close>

definition js_slice0 :: "jsval list \<Rightarrow> int \<Rightarrow> jsval list" where
  "js_slice0 xs e =
     (let n = int (length xs);
          k = (if e < 0 then max (n + e) 0 else min e n)
      in take (nat k) xs)"

subsection \<open>The built-in Map\<close>

text \<open>
  A \<^verbatim>\<open>Map\<close> is its list of entries in insertion order. \<^verbatim>\<open>has\<close> and \<^verbatim>\<open>get\<close> look for
  the first entry whose key is the same value (SameValueZero) as the given one;
  \<^verbatim>\<open>set\<close> replaces the value of that entry, or appends a new entry, storing \<open>-0\<close> as
  \<open>+0\<close>.
\<close>

type_synonym js_map = "(jsval \<times> jsval) list"

definition Map_has :: "js_map \<Rightarrow> jsval \<Rightarrow> bool" where
  "Map_has m k = (find (\<lambda>e. same_value_zero (fst e) k) m \<noteq> None)"

definition Map_get :: "js_map \<Rightarrow> jsval \<Rightarrow> jsval" where
  "Map_get m k =
     (case find (\<lambda>e. same_value_zero (fst e) k) m of
        None \<Rightarrow> Undefined
      | Some e \<Rightarrow> snd e)"

fun canonical_key :: "jsval \<Rightarrow> jsval" where
  "canonical_key (Num NegZero) = Num (Fin 0)"
| "canonical_key k = k"

fun Map_set :: "js_map \<Rightarrow> jsval \<Rightarrow> jsval \<Rightarrow> js_map" where
  "Map_set [] k v = [(canonical_key k, v)]"
| "Map_set (e # m) k v =
     (if same_value_zero (fst e) k then (fst e, v) # m else e # Map_set m k v)"

section \<open>The module's functions\<close>

subsection \<open>getPolynom\<close>

text \<open>
  \<^verbatim>\<open>getPolynom(...arg)\<close> returns a function or \<^verbatim>\<open>null\<close> (\<open>None\<close>). The returned
  function reads its first argument \<open>x\<close>. The branches for one and two coefficients
  first pad the rest array with zeros, as the source does.
\<close>

definition getPolynom :: "jsval list \<Rightarrow> (jsval \<Rightarrow> jsval) option" where
  "getPolynom arg =
     (if length arg = 1 then
        (let arg1 = js_store arg 1 (Num (Fin 0));
             arg2 = js_store arg1 2 (Num (Fin 0))
         in Some (\<lambda>x. js_index arg2 0))
      else if length arg = 2 then
        (let arg1 = js_store arg 2 (Num (Fin 0))
         in Some (\<lambda>x. js_add (js_mul (js_index arg1 0) x) (js_index arg1 1)))
      else if length arg = 3 then
        Some (\<lambda>x.
          if strict_eq (js_index arg 0) Undefined then Null
          else js_add
                 (js_add (js_mul (js_mul (js_index arg 0) x) x) (js_mul (js_index arg 1) x))
                 (js_index arg 2))
      else None)"

subsection \<open>memoize\<close>

text \<open>
  \<^verbatim>\<open>memoize(func)\<close> creates the private \<^verbatim>\<open>cache\<close> and returns the closure \<^verbatim>\<open>foo\<close>.
  The state of a call of \<^verbatim>\<open>foo\<close> is the cache together with the state \<open>'s\<close> that
  \<open>func\<close> works on; \<open>func\<close> has no access to the cache and does not call the wrapper
  itself. When \<open>func\<close> throws, the statements after the call are not reached.
\<close>

definition memoize_foo ::
  "'s jsfunc \<Rightarrow> jsval list \<Rightarrow> js_map \<times> 's \<Rightarrow> (js_error + jsval) \<times> (js_map \<times> 's)" where
  "memoize_foo func args st =
     (let x = js_index args 0; cache = fst st; s = snd st in
      if Map_has cache x then (Inr (Map_get cache x), (cache, s))
      else
        (case call func [x] s of
           (Inl e, s') \<Rightarrow> (Inl e, (cache, s'))
         | (Inr res, s') \<Rightarrow> (Inr res, (Map_set cache x res, s'))))"

definition memoize ::
  "'s jsfunc \<Rightarrow>
     js_map \<times> (jsval list \<Rightarrow> js_map \<times> 's \<Rightarrow> (js_error + jsval) \<times> (js_map \<times> 's))" where
  "memoize func = ([], memoize_foo func)"

subsection \<open>retry\<close>

text \<open>
  \<^verbatim>\<open>retry(func, attempts)\<close> returns either a plain value or the function object
  \<^verbatim>\<open>func\<close> itself.
\<close>

datatype 's js_ret = RetVal jsval | RetFun "'s jsfunc"

text \<open>
  The three nested blocks of the source, one \<open>case\<close> per call of \<^verbatim>\<open>func()\<close>: \<open>Inl\<close> is
  the entry into the \<^verbatim>\<open>catch\<close> clause. The assignment \<^verbatim>\<open>count = 1 + count\<close> stands
  after the call in each block and is followed by the \<^verbatim>\<open>return\<close>, so it is skipped
  whenever the call throws: both \<^verbatim>\<open>catch\<close> clauses read the initial \<open>count\<close>.
\<close>

definition retry :: "'s jsfunc \<Rightarrow> jsval \<Rightarrow> 's \<Rightarrow> (js_error + 's js_ret) \<times> 's" where
  "retry func attempts s =
     (let count = Num (Fin 0) in
      case call func [] s of
        (Inr r, s1) \<Rightarrow>
          (let count1 = js_add (Num (Fin 1)) count in (Inr (RetFun func), s1))
      | (Inl e, s1) \<Rightarrow>
          if strict_eq count attempts then (Inr (RetVal attempts), s1)
          else
            (case call func [] s1 of
               (Inr r, s2) \<Rightarrow>
                 (let count1 = js_add (Num (Fin 1)) count in (Inr (RetFun func), s2))
             | (Inl e1, s2) \<Rightarrow>
                 if strict_eq count attempts then (Inr (RetVal attempts), s2)
                 else
                   (case call func [] s2 of
                      (Inr r, s3) \<Rightarrow>
                        (let count1 = js_add (Num (Fin 1)) count
                         in (Inr (RetFun func), s3))
                    | (Inl e2, s3) \<Rightarrow> (Inl e2, s3))))"

subsection \<open>logger\<close>

text \<open>Sequencing of two calls: a throw of the first skips the second.\<close>

definition then_do ::
  "('s \<Rightarrow> (js_error + 'a) \<times> 's) \<Rightarrow> ('a \<Rightarrow> 's \<Rightarrow> (js_error + 'b) \<times> 's) \<Rightarrow>
     's \<Rightarrow> (js_error + 'b) \<times> 's" where
  "then_do m k s = (case m s of (Inl e, s') \<Rightarrow> (Inl e, s') | (Inr v, s') \<Rightarrow> k v s')"

text \<open>The callback of \<^verbatim>\<open>x[0].map\<close>: a string item is put between double quotes.\<close>

fun quote_item :: "jsval \<Rightarrow> jsval" where
  "quote_item (Str s) = Str ([CHR 0x22] @ s @ [CHR 0x22])"
| "quote_item item = item"

text \<open>
  \<^verbatim>\<open>logger(func, logFunc)\<close> returns the closure \<^verbatim>\<open>wrapper\<close>. A template literal applies
  ToString to each of its holes. Only an array has a \<^verbatim>\<open>map\<close> method: \<^verbatim>\<open>x[0].map\<close>
  throws a TypeError when \<^verbatim>\<open>x[0]\<close> is \<^verbatim>\<open>undefined\<close> or \<^verbatim>\<open>null\<close> (no property can be
  read) and when it is any other value of the fragment (the property is \<^verbatim>\<open>undefined\<close>,
  which cannot be called).
\<close>

definition wrapper ::
  "'s jsfunc \<Rightarrow> 's jsfunc \<Rightarrow> jsval list \<Rightarrow> 's \<Rightarrow> (js_error + jsval) \<times> 's" where
  "wrapper func logFunc args1 s =
     (let arr = args1 in
      if length args1 = 1 then
        then_do (call logFunc [Str (name func @ ''('' @ join '','' arr @ '') starts'')])
          (\<lambda>u. then_do
             (call logFunc [Str (name func @ ''('' @ join '','' arr @ '') ends'')])
             (\<lambda>u. call func args1)) s
      else
        (let x = js_slice0 arr (int (length arr) - 1) in
         case js_index x 0 of
           Arr a items \<Rightarrow>
             (let xMap = map quote_item items;
                  lastArg = js_index arr (int (length arr) - 1)
              in then_do
                   (call logFunc
                      [Str (name func @ ''(['' @ join '','' xMap @ ''],''
                            @ to_string (Num (to_number lastArg)) @ '') starts'')])
                   (\<lambda>u. then_do (call func args1)
                      (\<lambda>x2. then_do
                         (call logFunc
                            [Str (name func @ ''(['' @ join '','' xMap @ ''],''
                                  @ to_string lastArg @ '') ends'')])
                         (\<lambda>u s'. (Inr x2, s')))) s)
         | Undefined \<Rightarrow> (Inl TypeError, s)
         | Null \<Rightarrow> (Inl TypeError, s)
         | Bool b \<Rightarrow> (Inl TypeError, s)
         | Num n \<Rightarrow> (Inl TypeError, s)
         | Str t \<Rightarrow> (Inl TypeError, s)))"

definition logger :: "'s jsfunc \<Rightarrow> 's jsfunc \<Rightarrow> jsval list \<Rightarrow> 's \<Rightarrow> (js_error + jsval) \<times> 's" where
  "logger func logFunc = wrapper func logFunc"

subsection \<open>partialUsingArguments\<close>

text \<open>
  \<^verbatim>\<open>partialUsingArguments(fn, ...args1)\<close> returns the closure \<^verbatim>\<open>f\<close>, whose body joins
  the two argument lists with the empty separator and returns the concatenation.
\<close>

definition partialUsingArguments :: "'s jsfunc \<Rightarrow> jsval list \<Rightarrow> 's jsfunc" where
  "partialUsingArguments fn args1 =
     \<lparr> name = ''f'',
       body = (\<lambda>args s. (Inr (Str (join [] args1 @ join [] args)), s)) \<rparr>"

subsection \<open>getIdGeneratorFunction\<close>

text \<open>
  Every call of \<^verbatim>\<open>getIdGeneratorFunction\<close> creates a new environment holding
  \<^verbatim>\<open>startFrom\<close>, \<^verbatim>\<open>count\<close> and \<^verbatim>\<open>flag\<close>, and returns a closure \<^verbatim>\<open>wrapper\<close> over it. The
  environments live in a store, the closure is the address of its environment: what
  one closure writes is visible to exactly the closures over the same address.
\<close>

record id_env =
  startFrom :: jsval
  count :: jsval
  flag :: jsval

type_synonym id_store = "id_env list"

definition getIdGeneratorFunction :: "jsval \<Rightarrow> id_store \<Rightarrow> nat \<times> id_store" where
  "getIdGeneratorFunction start h =
     (length h, h @ [\<lparr> startFrom = start, count = Num (Fin 0), flag = Undefined \<rparr>])"

text \<open>A call of the closure at address \<open>a\<close>; \<open>None\<close> when no closure was created there.\<close>

definition id_wrapper :: "nat \<Rightarrow> id_store \<Rightarrow> (jsval \<times> id_store) option" where
  "id_wrapper a h =
     (if a < length h then
        (let env = h ! a;
             env1 = (if truthy (flag env)
                     then env \<lparr> count := js_add (Num (Fin 1)) (count env) \<rparr> else env);
             env2 = env1 \<lparr> flag := Bool True \<rparr>
         in Some (js_add (startFrom env2) (count env2), h[a := env2]))
      else None)"

section \<open>Clients and observers\<close>

text \<open>
  The properties below speak about how often and in which order a wrapped function is
  invoked. The functions of this section are the programs that observe it: callers that
  run a sequence of calls, and functions that record their own invocations in the state
  they work on.
\<close>

text \<open>The mathematical value of a finite number.\<close>

fun finite_value :: "jsnum \<Rightarrow> int option" where
  "finite_value (Fin i) = Some i"
| "finite_value NegZero = Some 0"
| "finite_value x = None"

text \<open>
  \<^verbatim>\<open>getPolynom(...coefficients)(x)\<close>: the value of the returned function at \<open>x\<close>; \<open>None\<close>
  when \<open>getPolynom\<close> returned \<^verbatim>\<open>null\<close> and there is no function to call.
\<close>

definition polynom_at :: "jsval list \<Rightarrow> jsval \<Rightarrow> jsval option" where
  "polynom_at coefficients x =
     (case getPolynom coefficients of None \<Rightarrow> None | Some q \<Rightarrow> Some (q x))"

text \<open>
  A caller of the memoized wrapper: one call per element of \<open>xs\<close>, each outcome (a
  returned value or a caught error) collected in order.
\<close>

fun memo_calls ::
  "'s jsfunc \<Rightarrow> jsval list \<Rightarrow> js_map \<times> 's \<Rightarrow> (js_error + jsval) list \<times> (js_map \<times> 's)" where
  "memo_calls func [] st = ([], st)"
| "memo_calls func (x # xs) st =
     (case memoize_foo func [x] st of
        (r, st1) \<Rightarrow> (case memo_calls func xs st1 of (rs, st2) \<Rightarrow> (r # rs, st2)))"

text \<open>
  \<open>recording func\<close> behaves as \<open>func\<close> and appends every invocation, with its arguments
  and its outcome, to a journal kept beside the state of \<open>func\<close>.
\<close>

type_synonym journal = "(jsval list \<times> (js_error + jsval)) list"

definition recording :: "'s jsfunc \<Rightarrow> (journal \<times> 's) jsfunc" where
  "recording func =
     \<lparr> name = name func,
       body = (\<lambda>args st.
         case body func args (snd st) of (r, s') \<Rightarrow> (r, (fst st @ [(args, r)], s'))) \<rparr>"

fun returned :: "js_error + jsval \<Rightarrow> bool" where
  "returned (Inr v) = True"
| "returned (Inl e) = False"

text \<open>The invocations in a journal whose first argument is the key \<open>k\<close>.\<close>

definition invocations_for :: "jsval \<Rightarrow> journal \<Rightarrow> journal" where
  "invocations_for k j = filter (\<lambda>e. same_value_zero (js_index (fst e) 0) k) j"

definition returning_invocations_for :: "jsval \<Rightarrow> journal \<Rightarrow> journal" where
  "returning_invocations_for k j = filter (\<lambda>e. returned (snd e)) (invocations_for k j)"

text \<open>
  A niladic function that throws on each of its first \<open>k\<close> invocations and returns
  afterwards. Its state is the number of invocations so far.
\<close>

definition fails_first :: "nat \<Rightarrow> nat jsfunc" where
  "fails_first k =
     \<lparr> name = ''func'',
       body = (\<lambda>args n.
         (if n < k then Inl (Thrown (Str ''test'')) else Inr (Num (Fin (int n + 1))), n + 1)) \<rparr>"

text \<open>
  The trace of a logged call: the lines the sink received and the invocations of the
  wrapped function, in the order they happened.
\<close>

datatype event = Logged "jsval list" | Invoked string "jsval list"

definition traced :: "string \<Rightarrow> jsval \<Rightarrow> event list jsfunc" where
  "traced nm r = \<lparr> name = nm, body = (\<lambda>args tr. (Inr r, tr @ [Invoked nm args])) \<rparr>"

definition trace_sink :: "event list jsfunc" where
  "trace_sink = \<lparr> name = ''log'', body = (\<lambda>args tr. (Inr Undefined, tr @ [Logged args])) \<rparr>"

text \<open>
  A program over id generators: it creates generators and invokes closures, in any
  order. \<open>run_actions\<close> gives the store it leaves (\<open>None\<close> when it invokes an address
  where no closure was created).
\<close>

datatype id_action = Create jsval | Invoke nat

fun run_actions :: "id_action list \<Rightarrow> id_store \<Rightarrow> id_store option" where
  "run_actions [] h = Some h"
| "run_actions (Create start # acts) h = run_actions acts (snd (getIdGeneratorFunction start h))"
| "run_actions (Invoke a # acts) h =
     (case id_wrapper a h of None \<Rightarrow> None | Some (v, h') \<Rightarrow> run_actions acts h')"

definition calls_of :: "nat \<Rightarrow> id_action list \<Rightarrow> nat" where
  "calls_of g acts = length (filter (\<lambda>act. act = Invoke g) acts)"

text \<open>
  The invariant of the journal of a memoized \<open>recording func\<close>: for every key at most
  one recorded invocation returned, and then the key is in the cache.
\<close>

definition journal_inv :: "js_map \<Rightarrow> journal \<Rightarrow> bool" where
  "journal_inv cache j =
     (\<forall>k. length (returning_invocations_for k j) \<le> 1
          \<and> (returning_invocations_for k j \<noteq> [] \<longrightarrow> Map_has cache k))"

text \<open>
  A sample function to memoize: it returns its argument plus one and counts its
  invocations in its state.
\<close>

definition successor :: "nat jsfunc" where
  "successor =
     \<lparr> name = ''successor'',
       body = (\<lambda>args n. (Inr (js_add (js_index args 0) (Num (Fin 1))), n + 1)) \<rparr>"

text \<open>
  The environment of a generator created with the number \<open>n\<close> after \<open>k\<close> calls of its
  closure.
\<close>

definition env_after :: "jsnum \<Rightarrow> nat \<Rightarrow> id_env" where
  "env_after n k =
     (if k = 0 then \<lparr> startFrom = Num n, count = Num (Fin 0), flag = Undefined \<rparr>
      else \<lparr> startFrom = Num n, count = Num (Fin (int k - 1)), flag = Bool True \<rparr>)"

section \<open>Properties\<close>

subsection \<open>Array and number lemmas\<close>

lemma js_index_Nil: "js_index [] i = Undefined"
  by (auto simp add: js_index_def)

lemma js_index_Cons:
  "js_index (x # xs) i = (if i = 0 then x else if 0 < i then js_index xs (i - 1) else Undefined)"
  by (auto simp: js_index_def nth_Cons' nat_diff_distrib)

lemma bit_length_range: "2 ^ k \<le> m \<Longrightarrow> m < 2 ^ Suc k \<Longrightarrow> bit_length m = Suc k"
proof (induction k arbitrary: m)
  case 0
  then have "m = 1" by simp
  then show ?case by (simp add: bit_length.simps [of "Suc 0"] bit_length.simps [of 0])
next
  case (Suc k)
  then have "2 ^ k \<le> m div 2" and "m div 2 < 2 ^ Suc k" and "m \<noteq> 0"
    by auto
  with Suc.IH have "bit_length (m div 2) = Suc k" by blast
  with \<open>m \<noteq> 0\<close> show ?case by (simp add: bit_length.simps [of m])
qed

lemma round_nat_exact: "m \<le> 2 ^ 53 \<Longrightarrow> round_nat m = m"
proof (cases "m < 2 ^ 53")
  case True
  then show ?thesis by (simp add: round_nat_def)
next
  case False
  assume "m \<le> 2 ^ 53"
  with False have m: "m = 2 ^ 53" by simp
  have "bit_length m = 54"
    using bit_length_range [of 53 m] by (simp add: m)
  then show ?thesis
    by (simp add: round_nat_def m)
qed

lemma round_double_exact: "\<bar>i\<bar> \<le> 2 ^ 53 \<Longrightarrow> round_double i = Fin i"
proof -
  assume a: "\<bar>i\<bar> \<le> 2 ^ 53"
  then have le: "nat \<bar>i\<bar> \<le> 2 ^ 53"
    by (simp add: nat_le_iff)
  then have r: "round_nat (nat \<bar>i\<bar>) = nat \<bar>i\<bar>"
    by (rule round_nat_exact)
  have "(2::nat) ^ 53 < 2 ^ 1024" by simp
  with le have "\<not> 2 ^ 1024 \<le> nat \<bar>i\<bar>" by linarith
  with r show ?thesis
    by (auto simp: round_double_def Let_def)
qed

lemma finite_value_mul:
  "finite_value x = Some a \<Longrightarrow> finite_value y = Some b \<Longrightarrow> \<bar>a * b\<bar> \<le> 2 ^ 53 \<Longrightarrow>
   finite_value (num_mul x y) = Some (a * b)"
  by (cases x; cases y) (auto simp: num_mul_def round_double_exact)

lemma finite_value_add:
  "finite_value x = Some a \<Longrightarrow> finite_value y = Some b \<Longrightarrow> \<bar>a + b\<bar> \<le> 2 ^ 53 \<Longrightarrow>
   finite_value (num_add x y) = Some (a + b)"
  by (cases x; cases y) (auto simp: num_add_def round_double_exact)

lemma num_add_Fin:
  "finite_value x = Some a \<Longrightarrow> \<bar>a + c\<bar> \<le> 2 ^ 53 \<Longrightarrow> num_add x (Fin c) = Fin (a + c)"
  by (cases x) (auto simp: num_add_def round_double_exact)

lemma num_add_exact: "\<bar>a + b\<bar> \<le> 2 ^ 53 \<Longrightarrow> num_add (Fin a) (Fin b) = Fin (a + b)"
  by (simp add: num_add_Fin)

lemma js_arith_Num:
  "js_mul (Num x) (Num y) = Num (num_mul x y)"
  "js_add (Num x) (Num y) = Num (num_add x y)"
  by (simp_all add: js_mul_def js_add_def)

lemma bit_length_54: "2 ^ 53 \<le> m \<Longrightarrow> m < 2 ^ 54 \<Longrightarrow> bit_length m = 54"
  using bit_length_range [of 53 m] by simp

lemma round_at_2_53:
  "round_double (2 ^ 53 + 1) = Fin (2 ^ 53)"
  "round_double (2 ^ 53 + 2) = Fin (2 ^ 53 + 2)"
  by (simp_all add: round_double_def round_nat_def bit_length_54 Let_def)

lemma num_add_at_2_53:
  "num_add (Fin (2 ^ 53)) (Fin 1) = Fin (2 ^ 53)"
  "num_add (Fin (2 ^ 53)) (Fin 2) = Fin (2 ^ 53 + 2)"
  using round_at_2_53 by (simp_all add: num_add_def)

subsection \<open>getPolynom\<close>

lemma linear_exact:
  assumes "\<bar>i * x\<bar> \<le> 2 ^ 53" and "\<bar>i * x + j\<bar> \<le> 2 ^ 53"
  shows "num_add (num_mul (Fin i) (Fin x)) (Fin j) = Fin (i * x + j)"
proof -
  have "finite_value (num_mul (Fin i) (Fin x)) = Some (i * x)"
    by (rule finite_value_mul [OF _ _ assms(1)]) simp_all
  then show ?thesis
    using assms(2) by (rule num_add_Fin)
qed

lemma quadratic_exact:
  assumes "\<bar>i * x\<bar> \<le> 2 ^ 53" and "\<bar>i * x * x\<bar> \<le> 2 ^ 53" and "\<bar>j * x\<bar> \<le> 2 ^ 53"
    and "\<bar>i * x * x + j * x\<bar> \<le> 2 ^ 53" and "\<bar>i * x * x + j * x + k\<bar> \<le> 2 ^ 53"
  shows "num_add (num_add (num_mul (num_mul (Fin i) (Fin x)) (Fin x)) (num_mul (Fin j) (Fin x)))
           (Fin k)
         = Fin (i * x * x + j * x + k)"
proof -
  have ix: "finite_value (num_mul (Fin i) (Fin x)) = Some (i * x)"
    by (rule finite_value_mul [OF _ _ assms(1)]) simp_all
  have ixx: "finite_value (num_mul (num_mul (Fin i) (Fin x)) (Fin x)) = Some (i * x * x)"
    by (rule finite_value_mul [OF ix _ assms(2)]) simp
  have jx: "finite_value (num_mul (Fin j) (Fin x)) = Some (j * x)"
    by (rule finite_value_mul [OF _ _ assms(3)]) simp_all
  have "finite_value
       (num_add (num_mul (num_mul (Fin i) (Fin x)) (Fin x)) (num_mul (Fin j) (Fin x)))
     = Some (i * x * x + j * x)"
    by (rule finite_value_add [OF ixx jx assms(4)])
  then show ?thesis
    using assms(5) by (rule num_add_Fin)
qed

lemma getPolynom_one: "getPolynom [v] = Some (\<lambda>x. v)"
  by (simp add: getPolynom_def js_index_def js_store_def)

lemma getPolynom_two: "getPolynom [a, b] = Some (\<lambda>x. js_add (js_mul a x) b)"
  by (simp add: getPolynom_def js_index_def js_store_def)

lemma getPolynom_three:
  "getPolynom [a, b, c] =
     Some (\<lambda>x. if strict_eq a Undefined then Null
               else js_add (js_add (js_mul (js_mul a x) x) (js_mul b x)) c)"
  by (simp add: getPolynom_def js_index_Cons cong del: if_weak_cong)

text \<open>
  C6 as stated does not hold for every \<open>x\<close>: the returned function computes in doubles.
  With the coefficients 1 and 1 its value at \<open>2^53\<close> is \<open>2^53\<close>, not \<open>1 * 2^53 + 1\<close>.
\<close>

theorem getPolynom_linear_rounds_at_2_53:
  "polynom_at [Num (Fin 1), Num (Fin 1)] (Num (Fin (2 ^ 53))) = Some (Num (Fin (2 ^ 53)))
   \<and> (1 * 2 ^ 53 + 1 :: int) \<noteq> 2 ^ 53"
proof -
  have "num_mul (Fin 1) (Fin (2 ^ 53)) = Fin (2 ^ 53)"
    by (simp add: num_mul_def round_double_exact)
  then show ?thesis
    using num_add_at_2_53(1) by (simp add: polynom_at_def getPolynom_two js_arith_Num)
qed

text \<open>
  C6, amended. The result of \<open>getPolynom\<close> is determined by the number of coefficients:
  none gives \<^verbatim>\<open>null\<close>; one coefficient \<open>v\<close> gives a function that returns \<open>v\<close> for every
  argument; two numbers \<open>a, b\<close> give the function \<open>x \<mapsto> a * x + b\<close> and three numbers
  \<open>a, b, c\<close> the function \<open>x \<mapsto> a * x * x + b * x + c\<close> as the language computes them:
  every product and sum, taken from left to right, is rounded to the nearest double.
  For integers these are the exact values \<open>i * x + j\<close> and \<open>i * x\<^sup>2 + j * x + k\<close>
  whenever each intermediate product and sum has a magnitude of at most \<open>2^53\<close>.
\<close>

theorem getPolynom_by_count_in_doubles:
  "getPolynom [] = None
   \<and> (\<exists>q. getPolynom [v] = Some q \<and> (\<forall>x. q x = v))
   \<and> (\<exists>q. getPolynom [Num a, Num b] = Some q
          \<and> (\<forall>x. q (Num x) = Num (num_add (num_mul a x) b)))
   \<and> (\<exists>q. getPolynom [Num a, Num b, Num c] = Some q
          \<and> (\<forall>x. q (Num x)
                 = Num (num_add (num_add (num_mul (num_mul a x) x) (num_mul b x)) c)))
   \<and> (\<exists>q. getPolynom [Num (Fin i), Num (Fin j)] = Some q
          \<and> (\<forall>x. \<bar>i * x\<bar> \<le> 2 ^ 53 \<and> \<bar>i * x + j\<bar> \<le> 2 ^ 53
                 \<longrightarrow> q (Num (Fin x)) = Num (Fin (i * x + j))))
   \<and> (\<exists>q. getPolynom [Num (Fin i), Num (Fin j), Num (Fin k)] = Some q
          \<and> (\<forall>x. \<bar>i * x\<bar> \<le> 2 ^ 53 \<and> \<bar>i * x * x\<bar> \<le> 2 ^ 53 \<and> \<bar>j * x\<bar> \<le> 2 ^ 53
                   \<and> \<bar>i * x * x + j * x\<bar> \<le> 2 ^ 53 \<and> \<bar>i * x\<^sup>2 + j * x + k\<bar> \<le> 2 ^ 53
                 \<longrightarrow> q (Num (Fin x)) = Num (Fin (i * x\<^sup>2 + j * x + k))))"
proof (intro conjI)
  show "getPolynom [] = None"
    by (simp add: getPolynom_def)
  show "\<exists>q. getPolynom [v] = Some q \<and> (\<forall>x. q x = v)"
    by (simp add: getPolynom_one)
  show "\<exists>q. getPolynom [Num a, Num b] = Some q
          \<and> (\<forall>x. q (Num x) = Num (num_add (num_mul a x) b))"
    by (simp add: getPolynom_two js_arith_Num)
  show "\<exists>q. getPolynom [Num a, Num b, Num c] = Some q
          \<and> (\<forall>x. q (Num x)
                 = Num (num_add (num_add (num_mul (num_mul a x) x) (num_mul b x)) c))"
    by (simp add: getPolynom_three js_arith_Num)
  show "\<exists>q. getPolynom [Num (Fin i), Num (Fin j)] = Some q
          \<and> (\<forall>x. \<bar>i * x\<bar> \<le> 2 ^ 53 \<and> \<bar>i * x + j\<bar> \<le> 2 ^ 53
                 \<longrightarrow> q (Num (Fin x)) = Num (Fin (i * x + j)))"
    by (simp add: getPolynom_two js_arith_Num linear_exact)
  have sq: "i * x\<^sup>2 = i * x * x" for x
    by (simp add: power2_eq_square)
  show "\<exists>q. getPolynom [Num (Fin i), Num (Fin j), Num (Fin k)] = Some q
          \<and> (\<forall>x. \<bar>i * x\<bar> \<le> 2 ^ 53 \<and> \<bar>i * x * x\<bar> \<le> 2 ^ 53 \<and> \<bar>j * x\<bar> \<le> 2 ^ 53
                   \<and> \<bar>i * x * x + j * x\<bar> \<le> 2 ^ 53 \<and> \<bar>i * x\<^sup>2 + j * x + k\<bar> \<le> 2 ^ 53
                 \<longrightarrow> q (Num (Fin x)) = Num (Fin (i * x\<^sup>2 + j * x + k)))"
    unfolding sq by (simp add: getPolynom_three js_arith_Num quadratic_exact)
qed

theorem getPolynom_by_count_in_doubles_witness:
  "polynom_at [Num (Fin 1), Num (Fin (- 3))] (Num (Fin 5)) = Some (Num (Fin 2))
   \<and> polynom_at [Num (Fin 2), Num (Fin 3), Num (Fin 5)] (Num (Fin 1)) = Some (Num (Fin 10))"
proof (intro conjI)
  from getPolynom_by_count_in_doubles [where i = 1 and j = "- 3"]
  obtain q where "getPolynom [Num (Fin 1), Num (Fin (- 3))] = Some q"
    and "\<forall>x. \<bar>1 * x\<bar> \<le> 2 ^ 53 \<and> \<bar>1 * x + - 3\<bar> \<le> 2 ^ 53
           \<longrightarrow> q (Num (Fin x)) = Num (Fin (1 * x + - 3))"
    by blast
  from this(1) this(2) [rule_format, of 5]
  show "polynom_at [Num (Fin 1), Num (Fin (- 3))] (Num (Fin 5)) = Some (Num (Fin 2))"
    by (simp add: polynom_at_def)
next
  from getPolynom_by_count_in_doubles [where i = 2 and j = 3 and k = 5]
  obtain q where "getPolynom [Num (Fin 2), Num (Fin 3), Num (Fin 5)] = Some q"
    and "\<forall>x. \<bar>2 * x\<bar> \<le> 2 ^ 53 \<and> \<bar>2 * x * x\<bar> \<le> 2 ^ 53 \<and> \<bar>3 * x\<bar> \<le> 2 ^ 53
             \<and> \<bar>2 * x * x + 3 * x\<bar> \<le> 2 ^ 53 \<and> \<bar>2 * x\<^sup>2 + 3 * x + 5\<bar> \<le> 2 ^ 53
           \<longrightarrow> q (Num (Fin x)) = Num (Fin (2 * x\<^sup>2 + 3 * x + 5))"
    by blast
  from this(1) this(2) [rule_format, of 1]
  show "polynom_at [Num (Fin 2), Num (Fin 3), Num (Fin 5)] (Num (Fin 1)) = Some (Num (Fin 10))"
    by (simp add: polynom_at_def)
qed

text \<open>
  C4 as stated does not hold: with four coefficients the result is \<^verbatim>\<open>null\<close>, while the
  first three coefficients alone give a function (here with value 6 at 1).
\<close>

theorem getPolynom_four_not_truncated:
  "getPolynom [Num (Fin 1), Num (Fin 2), Num (Fin 3), Num (Fin 4)] = None
   \<and> (\<exists>q. getPolynom (take 3 [Num (Fin 1), Num (Fin 2), Num (Fin 3), Num (Fin 4)]) = Some q
          \<and> q (Num (Fin 1)) = Num (Fin 6))"
proof -
  have "num_add (num_add (num_mul (num_mul (Fin 1) (Fin 1)) (Fin 1)) (num_mul (Fin 2) (Fin 1)))
          (Fin 3) = Fin (1 * 1 * 1 + 2 * 1 + 3)"
    by (rule quadratic_exact) simp_all
  then show ?thesis
    by (simp add: getPolynom_three js_arith_Num) (simp add: getPolynom_def)
qed

text \<open>
  C4, amended. Called with more than three coefficients, \<open>getPolynom\<close> neither throws
  nor truncates: none of its three length tests holds and it returns \<^verbatim>\<open>null\<close>, as it
  does for no coefficient at all.
\<close>

theorem getPolynom_more_than_three: "getPolynom (a # b # c # d # rest) = None"
  by (simp add: getPolynom_def)

subsection \<open>memoize\<close>

lemma num_svz_refl: "num_same_value_zero x x"
  by (cases x) auto

lemma num_svz_sym: "num_same_value_zero x y \<Longrightarrow> num_same_value_zero y x"
  by (cases x; cases y) auto

lemma num_svz_trans:
  "num_same_value_zero x y \<Longrightarrow> num_same_value_zero y z \<Longrightarrow> num_same_value_zero x z"
  by (cases x; cases y; cases z) auto

lemma svz_refl: "same_value_zero x x"
  by (cases x) (auto simp: num_svz_refl)

lemma svz_sym: "same_value_zero x y \<Longrightarrow> same_value_zero y x"
  by (cases x; cases y) (auto simp: num_svz_sym)

lemma svz_trans: "same_value_zero x y \<Longrightarrow> same_value_zero y z \<Longrightarrow> same_value_zero x z"
  by (cases x; cases y; cases z) (auto intro: num_svz_trans)

lemma svz_right_cong: "same_value_zero x y \<Longrightarrow> same_value_zero k x = same_value_zero k y"
  by (meson svz_sym svz_trans)

lemma num_svz_zeros: "num_same_value_zero (Fin 0) x = num_same_value_zero NegZero x"
  by (cases x) auto

lemma svz_canonical_key: "same_value_zero (canonical_key k) k' = same_value_zero k k'"
  by (cases k rule: canonical_key.cases; cases k') (auto simp: num_svz_zeros)

lemma Map_has_cong: "same_value_zero x y \<Longrightarrow> Map_has m x = Map_has m y"
  by (simp add: Map_has_def svz_right_cong)

lemma Map_get_cong: "same_value_zero x y \<Longrightarrow> Map_get m x = Map_get m y"
  by (simp add: Map_get_def svz_right_cong)

lemma Map_has_Nil: "\<not> Map_has [] k"
  by (simp add: Map_has_def)

lemma Map_has_Cons: "Map_has (e # m) k = (same_value_zero (fst e) k \<or> Map_has m k)"
  by (simp add: Map_has_def)

lemma Map_get_Cons:
  "Map_get (e # m) k = (if same_value_zero (fst e) k then snd e else Map_get m k)"
  by (simp add: Map_get_def)

lemma Map_has_set: "Map_has (Map_set m k v) k' = (same_value_zero k k' \<or> Map_has m k')"
proof (induction m)
  case Nil
  show ?case by (simp add: Map_has_Cons Map_has_Nil svz_canonical_key)
next
  case (Cons e m)
  show ?case
  proof (cases "same_value_zero (fst e) k")
    case True
    then have "same_value_zero (fst e) k' = same_value_zero k k'"
      by (meson svz_sym svz_trans)
    with True show ?thesis by (auto simp: Map_has_Cons)
  next
    case False
    with Cons show ?thesis by (auto simp: Map_has_Cons)
  qed
qed

lemma Map_get_set:
  "Map_get (Map_set m k v) k' = (if same_value_zero k k' then v else Map_get m k')"
proof (induction m)
  case Nil
  show ?case by (simp add: Map_get_Cons svz_canonical_key Map_get_def)
next
  case (Cons e m)
  show ?case
  proof (cases "same_value_zero (fst e) k")
    case True
    then have "same_value_zero (fst e) k' = same_value_zero k k'"
      by (meson svz_sym svz_trans)
    with True show ?thesis by (simp add: Map_get_Cons)
  next
    case False
    then have "same_value_zero (fst e) k' \<Longrightarrow> \<not> same_value_zero k k'"
      by (meson svz_sym svz_trans)
    with False Cons show ?thesis by (auto simp: Map_get_Cons)
  qed
qed

lemma memoize_foo_hit:
  "Map_has cache x \<Longrightarrow>
   memoize_foo func (x # rest) (cache, s) = (Inr (Map_get cache x), (cache, s))"
  by (simp add: memoize_foo_def js_index_Cons)

lemma memoize_foo_miss:
  "\<not> Map_has cache x \<Longrightarrow>
   memoize_foo func (x # rest) (cache, s) =
     (case call func [x] s of
        (Inl e, s') \<Rightarrow> (Inl e, (cache, s'))
      | (Inr res, s') \<Rightarrow> (Inr res, (Map_set cache x res, s')))"
  by (simp add: memoize_foo_def js_index_Cons)

lemma memoize_foo_keeps:
  assumes "memoize_foo func [x] (cache, s) = (r, (cache', s'))" and "Map_has cache k"
  shows "Map_has cache' k \<and> Map_get cache' k = Map_get cache k"
proof (cases "Map_has cache x")
  case True
  with assms show ?thesis by (simp add: memoize_foo_hit)
next
  case False
  with assms(2) have "\<not> same_value_zero x k"
    using Map_has_cong by blast
  with assms False show ?thesis
    by (auto simp: memoize_foo_miss Map_has_set Map_get_set split: prod.splits sum.splits)
qed

lemma memo_calls_keeps:
  "memo_calls func xs (cache, s) = (rs, (cache', s')) \<Longrightarrow> Map_has cache k \<Longrightarrow>
   Map_has cache' k \<and> Map_get cache' k = Map_get cache k"
proof (induction xs arbitrary: cache s rs)
  case Nil
  then show ?case by simp
next
  case (Cons x xs)
  obtain r c1 s1 where step: "memoize_foo func [x] (cache, s) = (r, (c1, s1))"
    by (metis prod.exhaust)
  obtain rs1 where rest: "memo_calls func xs (c1, s1) = (rs1, (cache', s'))"
    using Cons.prems(1) step by (auto split: prod.splits)
  from memoize_foo_keeps [OF step Cons.prems(2)]
  have "Map_has c1 k" and "Map_get c1 k = Map_get cache k" by simp_all
  with Cons.IH [OF rest] show ?case by simp
qed

lemma memoize_later_hit:
  assumes "Map_has cache k" and "memo_calls func xs (cache, s) = (rs, st')"
    and "same_value_zero k y"
  shows "memoize_foo func (y # rest) st' = (Inr (Map_get cache k), st')"
proof -
  obtain cache' s' where st': "st' = (cache', s')" by (cases st')
  from memo_calls_keeps [OF assms(2) [unfolded st'] assms(1)]
  have "Map_has cache' k" and "Map_get cache' k = Map_get cache k" by simp_all
  with assms(3) have "Map_has cache' y" and "Map_get cache' y = Map_get cache k"
    using Map_has_cong Map_get_cong by metis+
  then show ?thesis by (simp add: st' memoize_foo_hit)
qed

lemma call_recording:
  "call (recording func) args (j, s) =
     (case call func args s of (r, s') \<Rightarrow> (r, (j @ [(args, r)], s')))"
  by (simp add: call_def recording_def)

lemma returning_append:
  "returning_invocations_for k (j @ [(args, r)]) =
     returning_invocations_for k j
       @ (if same_value_zero (js_index args 0) k \<and> returned r then [(args, r)] else [])"
  by (simp add: returning_invocations_for_def invocations_for_def)

lemma journal_inv_step:
  assumes inv: "journal_inv cache j"
    and step: "memoize_foo (recording func) [x] (cache, (j, s)) = (r, (cache', (j', s')))"
  shows "journal_inv cache' j'"
proof (cases "Map_has cache x")
  case True
  with step inv show ?thesis by (simp add: memoize_foo_hit)
next
  case False
  obtain r0 s0 where c: "call func [x] s = (r0, s0)" by (cases "call func [x] s")
  show ?thesis
  proof (cases r0)
    case (Inl e)
    with False step c have "cache' = cache" "j' = j @ [([x], Inl e)]"
      by (auto simp add: memoize_foo_miss call_recording)
    with inv show ?thesis
      by (simp add: journal_inv_def returning_append)
  next
    case (Inr v)
    with False step c have eq: "cache' = Map_set cache x v" "j' = j @ [([x], Inr v)]"
      by (auto simp add: memoize_foo_miss call_recording)
    show ?thesis
      unfolding journal_inv_def
    proof (intro allI conjI impI)
      fix k
      show "length (returning_invocations_for k j') \<le> 1"
      proof (cases "same_value_zero x k")
        case True
        with False have "\<not> Map_has cache k" using Map_has_cong by blast
        with inv have "returning_invocations_for k j = []"
          by (auto simp: journal_inv_def)
        then show ?thesis by (simp add: eq returning_append js_index_Cons)
      next
        case no: False
        with inv show ?thesis
          by (simp add: eq returning_append js_index_Cons journal_inv_def)
      qed
    next
      fix k
      assume ne: "returning_invocations_for k j' \<noteq> []"
      show "Map_has cache' k"
      proof (cases "same_value_zero x k")
        case True
        then show ?thesis by (simp add: eq Map_has_set)
      next
        case no: False
        with ne have "returning_invocations_for k j \<noteq> []"
          by (simp add: eq returning_append js_index_Cons)
        with inv have "Map_has cache k" by (simp add: journal_inv_def)
        then show ?thesis by (simp add: eq Map_has_set)
      qed
    qed
  qed
qed

lemma journal_inv_calls:
  "journal_inv cache j \<Longrightarrow>
   memo_calls (recording func) xs (cache, (j, s)) = (rs, (cache', (j', s'))) \<Longrightarrow>
   journal_inv cache' j'"
proof (induction xs arbitrary: cache j s rs)
  case Nil
  then show ?case by simp
next
  case (Cons x xs)
  obtain r c1 j1 s1 where
    step: "memoize_foo (recording func) [x] (cache, (j, s)) = (r, (c1, (j1, s1)))"
    by (metis prod.exhaust)
  obtain rs1 where
    rest: "memo_calls (recording func) xs (c1, (j1, s1)) = (rs1, (cache', (j', s')))"
    using Cons.prems(2) step by (auto split: prod.splits)
  from journal_inv_step [OF Cons.prems(1) step] have "journal_inv c1 j1" .
  from Cons.IH [OF this rest] show ?case .
qed

lemma journal_inv_init: "journal_inv [] []"
  by (simp add: journal_inv_def returning_invocations_for_def invocations_for_def)

lemma memoize_once_per_key:
  assumes "memo_calls (recording func) xs ([], ([], s)) = (rs, (cache', (j, s')))"
  shows "length (returning_invocations_for k j) \<le> 1"
  using journal_inv_calls [OF journal_inv_init assms] by (simp add: journal_inv_def)

lemma all_returned:
  assumes "list_all (\<lambda>e. returned (snd e)) j"
  shows "returning_invocations_for k j = invocations_for k j"
proof -
  have "\<forall>e\<in>set (invocations_for k j). returned (snd e)"
    using assms by (simp add: invocations_for_def list_all_iff)
  then show ?thesis
    by (simp add: returning_invocations_for_def)
qed

text \<open>
  C5. The wrapper of \<open>memoize func\<close> invokes \<open>func\<close> at most once per key. Once a key
  \<open>k\<close> is in the cache, whatever calls of the wrapper follow (\<open>xs\<close>), a later call with
  a key \<open>y\<close> that is the same value returns the stored value and leaves the whole state
  as it is: \<open>func\<close> is not invoked. A call with a key \<open>x\<close> that is not in the cache
  invokes \<open>func\<close> once on \<open>x\<close> and, when that returns \<open>r\<close>, stores \<open>r\<close> under \<open>x\<close> and
  returns it. In the journal of any run that starts from the empty cache, at most one
  invocation per key returned; when no invocation threw, that is at most one invocation
  per key.
\<close>

theorem memoize_at_most_once_per_key:
  "(Map_has cache k \<and> memo_calls func xs (cache, s) = (rs, st') \<and> same_value_zero k y
      \<longrightarrow> memoize_foo func (y # rest) st' = (Inr (Map_get cache k), st'))
   \<and> (\<not> Map_has cache x \<and> call func [x] s = (Inr r, s')
      \<longrightarrow> memoize_foo func (x # rest) (cache, s) = (Inr r, (Map_set cache x r, s'))
          \<and> Map_has (Map_set cache x r) x \<and> Map_get (Map_set cache x r) x = r)
   \<and> (memo_calls (recording func) xs ([], ([], s)) = (rs, (cache', (j, s')))
      \<longrightarrow> length (returning_invocations_for k j) \<le> 1
          \<and> (list_all (\<lambda>e. returned (snd e)) j \<longrightarrow> length (invocations_for k j) \<le> 1))"
proof (intro conjI impI)
  assume "Map_has cache k \<and> memo_calls func xs (cache, s) = (rs, st') \<and> same_value_zero k y"
  then have "Map_has cache k" and "memo_calls func xs (cache, s) = (rs, st')"
    and "same_value_zero k y"
    by simp_all
  then show "memoize_foo func (y # rest) st' = (Inr (Map_get cache k), st')"
    by (rule memoize_later_hit)
next
  assume a: "\<not> Map_has cache x \<and> call func [x] s = (Inr r, s')"
  then show "memoize_foo func (x # rest) (cache, s) = (Inr r, (Map_set cache x r, s'))"
    by (simp add: memoize_foo_miss)
  show "Map_has (Map_set cache x r) x"
    by (simp add: Map_has_set svz_refl)
  show "Map_get (Map_set cache x r) x = r"
    by (simp add: Map_get_set svz_refl)
next
  assume run: "memo_calls (recording func) xs ([], ([], s)) = (rs, (cache', (j, s')))"
  then show once: "length (returning_invocations_for k j) \<le> 1"
    by (rule memoize_once_per_key)
  assume "list_all (\<lambda>e. returned (snd e)) j"
  with once show "length (invocations_for k j) \<le> 1"
    by (simp add: all_returned)
qed

lemma memoize_foo_Cons:
  "memoize_foo func (x # rest) (cache, s) =
     (if Map_has cache x then (Inr (Map_get cache x), (cache, s))
      else case call func [x] s of
             (Inl e, s') \<Rightarrow> (Inl e, (cache, s'))
           | (Inr res, s') \<Rightarrow> (Inr res, (Map_set cache x res, s')))"
  by (simp add: memoize_foo_def js_index_Cons)

lemma call_successor:
  "\<bar>i + 1\<bar> \<le> 2 ^ 53 \<Longrightarrow> call successor [Num (Fin i)] n = (Inr (Num (Fin (i + 1))), n + 1)"
  by (simp add: call_def successor_def js_index_Cons js_arith_Num num_add_exact)

lemmas memo_eval =
  memoize_foo_Cons Map_has_Cons Map_has_Nil Map_get_Cons call_recording call_successor
  returning_invocations_for_def invocations_for_def js_index_Cons

theorem memoize_at_most_once_per_key_witness:
  "memoize_foo successor [Num (Fin 5)]
     ([(Num (Fin 5), Num (Fin 6)), (Num (Fin 7), Num (Fin 8))], 1)
   = (Inr (Num (Fin 6)), ([(Num (Fin 5), Num (Fin 6)), (Num (Fin 7), Num (Fin 8))], 1))
   \<and> memoize_foo successor [Num (Fin 7)] ([(Num (Fin 5), Num (Fin 6))], 0)
     = (Inr (Num (Fin 8)), ([(Num (Fin 5), Num (Fin 6)), (Num (Fin 7), Num (Fin 8))], 1))
   \<and> length (invocations_for (Num (Fin 5))
        [([Num (Fin 5)], Inr (Num (Fin 6))), ([Num (Fin 7)], Inr (Num (Fin 8)))]) \<le> 1"
proof (intro conjI)
  have has: "Map_has [(Num (Fin 5), Num (Fin 6))] (Num (Fin 5))"
    by (simp add: Map_has_def)
  have run: "memo_calls successor [Num (Fin 7)] ([(Num (Fin 5), Num (Fin 6))], 0)
      = ([Inr (Num (Fin 8))], ([(Num (Fin 5), Num (Fin 6)), (Num (Fin 7), Num (Fin 8))], 1))"
    by (simp add: memo_eval)
  have same: "same_value_zero (Num (Fin 5)) (Num (Fin 5))"
    by simp
  from memoize_at_most_once_per_key
         [where func = successor and cache = "[(Num (Fin 5), Num (Fin 6))]"
            and k = "Num (Fin 5)" and y = "Num (Fin 5)" and xs = "[Num (Fin 7)]" and s = 0
            and rest = "[]", THEN conjunct1, rule_format, OF conjI [OF has conjI [OF run same]]]
  show "memoize_foo successor [Num (Fin 5)]
     ([(Num (Fin 5), Num (Fin 6)), (Num (Fin 7), Num (Fin 8))], 1)
   = (Inr (Num (Fin 6)), ([(Num (Fin 5), Num (Fin 6)), (Num (Fin 7), Num (Fin 8))], 1))"
    by (simp add: Map_get_def)
next
  have miss: "\<not> Map_has [(Num (Fin 5), Num (Fin 6))] (Num (Fin 7))"
    by (simp add: Map_has_def)
  have ret: "call successor [Num (Fin 7)] 0 = (Inr (Num (Fin 8)), 1)"
    by (simp add: memo_eval)
  from memoize_at_most_once_per_key
         [where func = successor and cache = "[(Num (Fin 5), Num (Fin 6))]"
            and x = "Num (Fin 7)" and s = 0 and rest = "[]",
          THEN conjunct2, THEN conjunct1, rule_format, OF conjI [OF miss ret]]
  show "memoize_foo successor [Num (Fin 7)] ([(Num (Fin 5), Num (Fin 6))], 0)
     = (Inr (Num (Fin 8)), ([(Num (Fin 5), Num (Fin 6)), (Num (Fin 7), Num (Fin 8))], 1))"
    by simp
next
  have run: "memo_calls (recording successor) [Num (Fin 5), Num (Fin 7), Num (Fin 5)] ([], ([], 0))
      = ([Inr (Num (Fin 6)), Inr (Num (Fin 8)), Inr (Num (Fin 6))],
         ([(Num (Fin 5), Num (Fin 6)), (Num (Fin 7), Num (Fin 8))],
          ([([Num (Fin 5)], Inr (Num (Fin 6))), ([Num (Fin 7)], Inr (Num (Fin 8)))], 2)))"
    by (simp add: memo_eval)
  have total: "list_all (\<lambda>e. returned (snd e))
      [([Num (Fin 5)], Inr (Num (Fin 6))), ([Num (Fin 7)], Inr (Num (Fin 8)))]"
    by simp
  from memoize_at_most_once_per_key
         [where func = successor and k = "Num (Fin 5)",
          THEN conjunct2, THEN conjunct2, rule_format, OF run, THEN conjunct2, rule_format,
          OF total]
  show "length (invocations_for (Num (Fin 5))
        [([Num (Fin 5)], Inr (Num (Fin 6))), ([Num (Fin 7)], Inr (Num (Fin 8)))]) \<le> 1" .
qed

lemma memo_calls_no_new_key:
  "\<not> Map_has cache x \<Longrightarrow> list_all (\<lambda>y. \<not> same_value_zero y x) ys \<Longrightarrow>
   memo_calls func ys (cache, s) = (rs, (cache2, s2)) \<Longrightarrow> \<not> Map_has cache2 x"
proof (induction ys arbitrary: cache s rs)
  case Nil
  then show ?case by simp
next
  case (Cons y ys)
  obtain r c1 s1 where step: "memoize_foo func [y] (cache, s) = (r, (c1, s1))"
    by (metis prod.exhaust)
  obtain rs1 where rest: "memo_calls func ys (c1, s1) = (rs1, (cache2, s2))"
    using Cons.prems(3) step by (auto split: prod.splits)
  from Cons.prems(2) have ny: "\<not> same_value_zero y x" and nys: "list_all (\<lambda>y. \<not> same_value_zero y x) ys"
    by simp_all
  from step Cons.prems(1) ny have "\<not> Map_has c1 x"
    by (auto simp: memoize_foo_Cons Map_has_set split: if_splits prod.splits sum.splits)
  from Cons.IH [OF this nys rest] show ?case .
qed

text \<open>
  C8. When \<open>func\<close> throws on a key \<open>x\<close> during a call of the wrapper (so \<open>x\<close> was not
  in the cache), the error reaches the caller and the cache is left as it was: no
  entry for \<open>x\<close>. A second call with \<open>x\<close> invokes \<open>func\<close> again: the journal of the two
  calls holds two invocations on \<open>x\<close>. The same holds when calls with other keys (\<open>ys\<close>)
  come in between: the later call with \<open>x\<close> is decided by a new invocation of \<open>func\<close>.
\<close>

theorem memoize_throw_not_cached:
  "\<not> Map_has cache x \<and> call func [x] s = (Inl e, s') \<and> call func [x] s' = (r2, s'') \<longrightarrow>
     memoize_foo func (x # rest) (cache, s) = (Inl e, (cache, s'))
     \<and> memo_calls (recording func) [x, x] (cache, ([], s))
         = ([Inl e, r2],
            ((case r2 of Inl e2 \<Rightarrow> cache | Inr v \<Rightarrow> Map_set cache x v),
             ([([x], Inl e), ([x], r2)], s'')))
     \<and> (list_all (\<lambda>y. \<not> same_value_zero y x) ys
          \<and> memo_calls func ys (cache, s') = (rs, (cache2, s2)) \<longrightarrow>
        memoize_foo func (x # rest) (cache2, s2)
          = (case call func [x] s2 of
               (Inl e2, t) \<Rightarrow> (Inl e2, (cache2, t))
             | (Inr v, t) \<Rightarrow> (Inr v, (Map_set cache2 x v, t))))"
proof (intro impI conjI)
  assume a: "\<not> Map_has cache x \<and> call func [x] s = (Inl e, s') \<and> call func [x] s' = (r2, s'')"
  then show "memoize_foo func (x # rest) (cache, s) = (Inl e, (cache, s'))"
    by (simp add: memoize_foo_Cons)
  from a show "memo_calls (recording func) [x, x] (cache, ([], s))
         = ([Inl e, r2],
            ((case r2 of Inl e2 \<Rightarrow> cache | Inr v \<Rightarrow> Map_set cache x v),
             ([([x], Inl e), ([x], r2)], s'')))"
    by (cases r2) (simp_all add: memoize_foo_Cons call_recording)
  assume "list_all (\<lambda>y. \<not> same_value_zero y x) ys
          \<and> memo_calls func ys (cache, s') = (rs, (cache2, s2))"
  with a have "\<not> Map_has cache2 x"
    using memo_calls_no_new_key [of cache x ys func s' rs cache2 s2] by simp
  then show "memoize_foo func (x # rest) (cache2, s2)
          = (case call func [x] s2 of
               (Inl e2, t) \<Rightarrow> (Inl e2, (cache2, t))
             | (Inr v, t) \<Rightarrow> (Inr v, (Map_set cache2 x v, t)))"
    by (simp add: memoize_foo_Cons)
qed

lemma call_fails_first:
  "call (fails_first k) args n =
     (if n < k then Inl (Thrown (Str ''test'')) else Inr (Num (Fin (int n + 1))), n + 1)"
  by (simp add: call_def fails_first_def)

theorem memoize_throw_not_cached_witness:
  "memoize_foo (fails_first 1) [Num (Fin 5)] ([], 0) = (Inl (Thrown (Str ''test'')), ([], 1))
   \<and> memo_calls (recording (fails_first 1)) [Num (Fin 5), Num (Fin 5)] ([], ([], 0))
       = ([Inl (Thrown (Str ''test'')), Inr (Num (Fin 2))],
          ([(Num (Fin 5), Num (Fin 2))],
           ([([Num (Fin 5)], Inl (Thrown (Str ''test''))),
             ([Num (Fin 5)], Inr (Num (Fin 2)))], 2)))
   \<and> memoize_foo (fails_first 1) [Num (Fin 5)] ([(Num (Fin 6), Num (Fin 2))], 2)
       = (Inr (Num (Fin 3)), ([(Num (Fin 6), Num (Fin 2)), (Num (Fin 5), Num (Fin 3))], 3))"
proof -
  have miss: "\<not> Map_has [] (Num (Fin 5))"
    by (simp add: Map_has_Nil)
  have throws: "call (fails_first 1) [Num (Fin 5)] 0 = (Inl (Thrown (Str ''test'')), 1)"
    by (simp add: call_fails_first)
  have again: "call (fails_first 1) [Num (Fin 5)] 1 = (Inr (Num (Fin 2)), 2)"
    by (simp add: call_fails_first)
  have others: "list_all (\<lambda>y. \<not> same_value_zero y (Num (Fin 5))) [Num (Fin 6)]"
    by simp
  have between: "memo_calls (fails_first 1) [Num (Fin 6)] ([], 1)
      = ([Inr (Num (Fin 2))], ([(Num (Fin 6), Num (Fin 2))], 2))"
    by (simp add: memoize_foo_Cons Map_has_Nil call_fails_first)
  from memoize_throw_not_cached
    [where rest = "[]" and ys = "[Num (Fin 6)]", rule_format,
     OF conjI [OF miss conjI [OF throws again]]]
  have "memoize_foo (fails_first 1) [Num (Fin 5)] ([], 0) = (Inl (Thrown (Str ''test'')), ([], 1))"
    and "memo_calls (recording (fails_first 1)) [Num (Fin 5), Num (Fin 5)] ([], ([], 0))
       = ([Inl (Thrown (Str ''test'')), Inr (Num (Fin 2))],
          ([(Num (Fin 5), Num (Fin 2))],
           ([([Num (Fin 5)], Inl (Thrown (Str ''test''))),
             ([Num (Fin 5)], Inr (Num (Fin 2)))], 2)))"
    and later: "\<And>rs cache2 s2.
       list_all (\<lambda>y. \<not> same_value_zero y (Num (Fin 5))) [Num (Fin 6)]
         \<and> memo_calls (fails_first 1) [Num (Fin 6)] ([], 1) = (rs, (cache2, s2)) \<Longrightarrow>
       memoize_foo (fails_first 1) [Num (Fin 5)] (cache2, s2)
         = (case call (fails_first 1) [Num (Fin 5)] s2 of
              (Inl e2, t) \<Rightarrow> (Inl e2, (cache2, t))
            | (Inr v, t) \<Rightarrow> (Inr v, (Map_set cache2 (Num (Fin 5)) v, t)))"
    by simp_all
  moreover from later [OF conjI [OF others between]]
  have "memoize_foo (fails_first 1) [Num (Fin 5)] ([(Num (Fin 6), Num (Fin 2))], 2)
       = (Inr (Num (Fin 3)), ([(Num (Fin 6), Num (Fin 2)), (Num (Fin 5), Num (Fin 3))], 3))"
    by (simp add: call_fails_first)
  ultimately show ?thesis by simp
qed

lemma memoize_foo_same_key:
  assumes "memoize_foo func [x] st = (Inr v, st1)" and "same_value_zero x y"
  shows "memoize_foo func [y] st1 = (Inr v, st1)"
proof -
  obtain cache s where st: "st = (cache, s)" by (cases st)
  show ?thesis
  proof (cases "Map_has cache x")
    case True
    with assms(1) have "st1 = (cache, s)" and "v = Map_get cache x"
      by (auto simp: st memoize_foo_Cons)
    moreover from True assms(2) have "Map_has cache y" and "Map_get cache y = Map_get cache x"
      using Map_has_cong Map_get_cong by metis+
    ultimately show ?thesis by (simp add: memoize_foo_Cons)
  next
    case False
    with assms(1) obtain s' where "st1 = (Map_set cache x v, s')"
      by (auto simp: st memoize_foo_Cons split: prod.splits sum.splits)
    with assms(2) show ?thesis
      by (simp add: memoize_foo_Cons Map_has_set Map_get_set)
  qed
qed

lemma memo_two_calls_one_entry:
  assumes "same_value_zero x y"
  shows "length (fst (snd (memo_calls func [x, y] ([], s)))) \<le> 1"
proof -
  obtain r1 s1 where c1: "call func [x] s = (r1, s1)" by (cases "call func [x] s")
  obtain r2 s2 where c2: "call func [y] s1 = (r2, s2)" by (cases "call func [y] s1")
  show ?thesis
  proof (cases r1)
    case (Inl e)
    with c1 c2 show ?thesis
      by (cases r2) (simp_all add: memoize_foo_Cons Map_has_Nil)
  next
    case (Inr v)
    with c1 assms show ?thesis
      by (simp add: memoize_foo_Cons Map_has_Nil Map_has_Cons svz_canonical_key)
  qed
qed

text \<open>
  C10. The cache compares keys by SameValueZero. After a call with \<^verbatim>\<open>NaN\<close> that returned
  \<open>v\<close>, a call with \<^verbatim>\<open>NaN\<close> returns \<open>v\<close> and changes nothing, so \<open>func\<close> is not invoked,
  although \<^verbatim>\<open>NaN === NaN\<close> is false. The same holds for a call with \<open>-0\<close> after one with
  \<open>+0\<close> and the other way round, and two calls with the two zeros leave at most one
  entry in a cache that was empty.
\<close>

theorem memoize_keys_same_value_zero:
  "(memoize_foo func [Num NaN] st = (Inr v, st1)
      \<longrightarrow> memoize_foo func [Num NaN] st1 = (Inr v, st1))
   \<and> \<not> strict_eq (Num NaN) (Num NaN)
   \<and> (memoize_foo func [Num (Fin 0)] st = (Inr v, st1)
      \<longrightarrow> memoize_foo func [Num NegZero] st1 = (Inr v, st1))
   \<and> (memoize_foo func [Num NegZero] st = (Inr v, st1)
      \<longrightarrow> memoize_foo func [Num (Fin 0)] st1 = (Inr v, st1))
   \<and> length (fst (snd (memo_calls func [Num (Fin 0), Num NegZero] ([], s)))) \<le> 1
   \<and> length (fst (snd (memo_calls func [Num NegZero, Num (Fin 0)] ([], s)))) \<le> 1"
proof (intro conjI impI)
  show "\<not> strict_eq (Num NaN) (Num NaN)" by simp
  show "length (fst (snd (memo_calls func [Num (Fin 0), Num NegZero] ([], s)))) \<le> 1"
    by (rule memo_two_calls_one_entry) simp
  show "length (fst (snd (memo_calls func [Num NegZero, Num (Fin 0)] ([], s)))) \<le> 1"
    by (rule memo_two_calls_one_entry) simp
next
  assume "memoize_foo func [Num NaN] st = (Inr v, st1)"
  then show "memoize_foo func [Num NaN] st1 = (Inr v, st1)"
    by (rule memoize_foo_same_key) simp
next
  assume "memoize_foo func [Num (Fin 0)] st = (Inr v, st1)"
  then show "memoize_foo func [Num NegZero] st1 = (Inr v, st1)"
    by (rule memoize_foo_same_key) simp
next
  assume "memoize_foo func [Num NegZero] st = (Inr v, st1)"
  then show "memoize_foo func [Num (Fin 0)] st1 = (Inr v, st1)"
    by (rule memoize_foo_same_key) simp
qed

lemma call_successor_Num:
  "call successor [Num n] k = (Inr (Num (num_add n (Fin 1))), k + 1)"
  by (simp add: call_def successor_def js_index_Cons js_add_def)

theorem memoize_keys_same_value_zero_witness:
  "memoize_foo successor [Num NaN] ([(Num NaN, Num NaN)], 1) = (Inr (Num NaN), ([(Num NaN, Num NaN)], 1))
   \<and> memoize_foo successor [Num NegZero] ([(Num (Fin 0), Num (Fin 1))], 1)
       = (Inr (Num (Fin 1)), ([(Num (Fin 0), Num (Fin 1))], 1))
   \<and> memoize_foo successor [Num (Fin 0)] ([(Num (Fin 0), Num (Fin 1))], 1)
       = (Inr (Num (Fin 1)), ([(Num (Fin 0), Num (Fin 1))], 1))"
proof (intro conjI)
  have "memoize_foo successor [Num NaN] ([], 0) = (Inr (Num NaN), ([(Num NaN, Num NaN)], 1))"
    by (simp add: memoize_foo_Cons Map_has_Nil call_successor_Num num_add_def round_double_exact)
  with memoize_keys_same_value_zero [where func = successor and st = "([], 0)"]
  show "memoize_foo successor [Num NaN] ([(Num NaN, Num NaN)], 1)
      = (Inr (Num NaN), ([(Num NaN, Num NaN)], 1))"
    by blast
next
  have "memoize_foo successor [Num (Fin 0)] ([], 0)
      = (Inr (Num (Fin 1)), ([(Num (Fin 0), Num (Fin 1))], 1))"
    by (simp add: memoize_foo_Cons Map_has_Nil call_successor_Num num_add_def round_double_exact)
  with memoize_keys_same_value_zero [where func = successor and st = "([], 0)"]
  show "memoize_foo successor [Num NegZero] ([(Num (Fin 0), Num (Fin 1))], 1)
       = (Inr (Num (Fin 1)), ([(Num (Fin 0), Num (Fin 1))], 1))"
    by blast
next
  have "memoize_foo successor [Num NegZero] ([], 0)
      = (Inr (Num (Fin 1)), ([(Num (Fin 0), Num (Fin 1))], 1))"
    by (simp add: memoize_foo_Cons Map_has_Nil call_successor_Num num_add_def round_double_exact)
  with memoize_keys_same_value_zero [where func = successor and st = "([], 0)"]
  show "memoize_foo successor [Num (Fin 0)] ([(Num (Fin 0), Num (Fin 1))], 1)
       = (Inr (Num (Fin 1)), ([(Num (Fin 0), Num (Fin 1))], 1))"
    by blast
qed

subsection \<open>logger\<close>

lemma js_slice0_Nil: "js_slice0 [] e = []"
  by (simp add: js_slice0_def)

lemma js_slice0_first:
  assumes "0 < e"
  shows "js_index (js_slice0 (x # xs) e) 0 = x"
proof -
  from assms obtain k where "nat (min e (int (length (x # xs)))) = Suc k"
    by (cases "nat (min e (int (length (x # xs))))") auto
  with assms show ?thesis
    by (simp add: js_slice0_def Let_def js_index_Cons)
qed

text \<open>
  C9. Called with no argument, or with two or more arguments of which the first is not
  an array, the wrapper throws a TypeError and leaves the state as it found it, for
  every \<open>func\<close> and every log sink: neither was invoked, no line was logged. With the
  recording function and sink the trace stays empty.
\<close>

theorem wrapper_type_error:
  "wrapper func logFunc [] s = (Inl TypeError, s)
   \<and> ((\<forall>a items. first \<noteq> Arr a items)
        \<longrightarrow> wrapper func logFunc (first # second # others) s = (Inl TypeError, s))
   \<and> wrapper (traced nm r) trace_sink [] [] = (Inl TypeError, [])"
proof (intro conjI impI)
  show empty: "wrapper func logFunc [] s = (Inl TypeError, s)" for func logFunc :: "'a jsfunc" and s
    by (simp add: wrapper_def js_slice0_Nil js_index_Nil)
  show "wrapper (traced nm r) trace_sink [] [] = (Inl TypeError, [])"
    by (simp add: wrapper_def js_slice0_Nil js_index_Nil)
next
  assume "\<forall>a items. first \<noteq> Arr a items"
  then show "wrapper func logFunc (first # second # others) s = (Inl TypeError, s)"
    by (cases first) (simp_all add: wrapper_def js_slice0_first)
qed

lemma call_traced: "call (traced nm r) args tr = (Inr r, tr @ [Invoked nm args])"
  by (simp add: call_def traced_def)

lemma call_trace_sink: "call trace_sink args tr = (Inr Undefined, tr @ [Logged args])"
  by (simp add: call_def trace_sink_def)

lemma name_traced: "name (traced nm r) = nm"
  by (simp add: traced_def)

theorem wrapper_type_error_witness:
  "wrapper (traced ''f'' Null) trace_sink [Str ''abc'', Num (Fin 1)] [] = (Inl TypeError, [])"
  using wrapper_type_error [where first = "Str ''abc''" and func = "traced ''f'' Null"
      and logFunc = trace_sink and second = "Num (Fin 1)" and others = "[]" and s = "[]"]
  by simp

text \<open>
  C3 does not hold of the code. Called with one argument, the wrapper logs the start
  line and the end line and only then invokes \<open>func\<close>: the trace of
  \<^verbatim>\<open>logger(f, sink)(7)\<close> is start line, end line, invocation. The other branch of the
  same wrapper (here with an array and a number) does log the end line after the
  invocation.
\<close>

theorem wrapper_one_argument_logs_end_before_call:
  "wrapper (traced ''f'' (Num (Fin 49))) trace_sink [Num (Fin 7)] []
     = (Inr (Num (Fin 49)),
        [Logged [Str ''f(7) starts''], Logged [Str ''f(7) ends''], Invoked ''f'' [Num (Fin 7)]])
   \<and> wrapper (traced ''f'' (Num (Fin 49))) trace_sink
         [Arr 0 [Str ''a'', Num (Fin 1)], Num (Fin 2)] []
     = (Inr (Num (Fin 49)),
        [Logged [Str (''f(['' @ [CHR 0x22] @ ''a'' @ [CHR 0x22] @ '',1],2) starts'')],
         Invoked ''f'' [Arr 0 [Str ''a'', Num (Fin 1)], Num (Fin 2)],
         Logged [Str (''f(['' @ [CHR 0x22] @ ''a'' @ [CHR 0x22] @ '',1],2) ends'')]])"
  by (simp add: wrapper_def then_do_def call_traced call_trace_sink name_traced
        int_to_string_def digits.simps digit_char_def js_slice0_def js_index_Cons)

subsection \<open>retry\<close>

text \<open>
  C1 does not hold of the code. \<open>fails_first k\<close> throws on its first \<open>k\<close> invocations
  and counts its invocations. With \<open>attempts = 1\<close> and a function that keeps throwing,
  \<open>retry\<close> invokes it three times, not at most two. With \<open>attempts = 0\<close> the failure of
  the only invocation is swallowed and \<open>0\<close> is returned. When the first invocation
  returns, \<open>retry\<close> returns the function object and not the result. With
  \<open>attempts = 5\<close> and a function that would return at its fourth invocation, \<open>retry\<close>
  gives up after three.
\<close>

theorem retry_gives_up_swallows_and_returns_func:
  "retry (fails_first 3) (Num (Fin 1)) 0 = (Inl (Thrown (Str ''test'')), 3)
   \<and> retry (fails_first 1) (Num (Fin 0)) 0 = (Inr (RetVal (Num (Fin 0))), 1)
   \<and> retry (fails_first 0) (Num (Fin 2)) 0 = (Inr (RetFun (fails_first 0)), 1)
   \<and> retry (fails_first 3) (Num (Fin 5)) 0 = (Inl (Thrown (Str ''test'')), 3)"
  by (simp add: retry_def call_fails_first)

subsection \<open>partialUsingArguments\<close>

text \<open>
  C2 does not hold of the code. The closure returned by \<open>partialUsingArguments fn args1\<close>
  never invokes \<open>fn\<close>: for every \<open>fn\<close> it leaves the state unchanged and returns the
  two argument lists joined as text. With a recording \<open>fn\<close> that returns \<^verbatim>\<open>'z'\<close> the
  closure returns \<^verbatim>\<open>'ab'\<close> and the trace stays empty, while \<open>fn\<close> itself, applied to the
  bound arguments followed by the call-time ones, returns \<^verbatim>\<open>'z'\<close>.
\<close>

theorem partialUsingArguments_never_calls_fn:
  "call (partialUsingArguments fn args1) args s = (Inr (Str (join [] args1 @ join [] args)), s)
   \<and> call (partialUsingArguments (traced ''fn'' (Str ''z'')) [Str ''a'']) [Str ''b''] []
       = (Inr (Str ''ab''), [])
   \<and> call (traced ''fn'' (Str ''z'')) ([Str ''a''] @ [Str ''b'']) []
       = (Inr (Str ''z''), [Invoked ''fn'' [Str ''a'', Str ''b'']])"
  by (simp add: partialUsingArguments_def call_def traced_def)

subsection \<open>getIdGeneratorFunction\<close>

lemma id_wrapper_step:
  assumes "g < length h" and "h ! g = env_after n k" and "int k \<le> 2 ^ 53"
  shows "id_wrapper g h = Some (Num (num_add n (Fin (int k))), h[g := env_after n (Suc k)])"
proof (cases k)
  case 0
  with assms show ?thesis
    by (simp add: id_wrapper_def env_after_def Let_def js_arith_Num)
next
  case (Suc m)
  with assms(3) have "num_add (Fin 1) (Fin (int m)) = Fin (1 + int m)"
    by (intro num_add_exact) simp
  with Suc assms(1,2) show ?thesis
    by (simp add: id_wrapper_def env_after_def Let_def js_arith_Num)
qed

lemma id_wrapper_other:
  assumes "id_wrapper a h = Some (v, h')" and "a \<noteq> g"
  shows "length h' = length h \<and> h' ! g = h ! g"
  using assms by (auto simp: id_wrapper_def Let_def split: if_splits)

lemma getIdGeneratorFunction_fresh:
  "getIdGeneratorFunction (Num n) h = (g, h1) \<Longrightarrow> g < length h1 \<and> h1 ! g = env_after n 0"
  by (auto simp: getIdGeneratorFunction_def env_after_def)

lemma getIdGeneratorFunction_other:
  "g < length h \<Longrightarrow>
   g < length (snd (getIdGeneratorFunction start h))
   \<and> snd (getIdGeneratorFunction start h) ! g = h ! g"
  by (simp add: getIdGeneratorFunction_def nth_append)

lemma calls_of_simps:
  "calls_of g [] = 0"
  "calls_of g (Create start # acts) = calls_of g acts"
  "calls_of g (Invoke a # acts) = (if a = g then Suc (calls_of g acts) else calls_of g acts)"
  by (simp_all add: calls_of_def)

lemma run_actions_env:
  "g < length h \<Longrightarrow> h ! g = env_after n k \<Longrightarrow> run_actions acts h = Some h2 \<Longrightarrow>
   int (k + calls_of g acts) \<le> 2 ^ 53 \<Longrightarrow>
   g < length h2 \<and> h2 ! g = env_after n (k + calls_of g acts)"
proof (induction acts arbitrary: h k)
  case Nil
  then show ?case by (simp add: calls_of_simps)
next
  case (Cons act acts)
  show ?case
  proof (cases act)
    case (Create start)
    have "g < length (snd (getIdGeneratorFunction start h))"
      and "snd (getIdGeneratorFunction start h) ! g = env_after n k"
      using getIdGeneratorFunction_other [OF Cons.prems(1)] Cons.prems(2) by simp_all
    moreover have "run_actions acts (snd (getIdGeneratorFunction start h)) = Some h2"
      using Cons.prems(3) Create by simp
    moreover have "int (k + calls_of g acts) \<le> 2 ^ 53"
      using Cons.prems(4) Create by (simp add: calls_of_simps)
    ultimately show ?thesis
      using Cons.IH Create by (simp add: calls_of_simps)
  next
    case (Invoke a)
    show ?thesis
    proof (cases "a = g")
      case True
      let ?h' = "h[g := env_after n (Suc k)]"
      from Cons.prems(4) Invoke True have bound: "int (Suc k + calls_of g acts) \<le> 2 ^ 53"
        by (simp add: calls_of_simps)
      then have "int k \<le> 2 ^ 53" by simp
      from id_wrapper_step [OF Cons.prems(1,2) this]
      have "run_actions acts ?h' = Some h2"
        using Cons.prems(3) Invoke True by simp
      moreover have "g < length ?h'" and "?h' ! g = env_after n (Suc k)"
        using Cons.prems(1) by simp_all
      ultimately have "g < length h2 \<and> h2 ! g = env_after n (Suc k + calls_of g acts)"
        using Cons.IH bound by blast
      with Invoke True show ?thesis by (simp add: calls_of_simps)
    next
      case False
      from Cons.prems(3) Invoke obtain v h' where
        step: "id_wrapper a h = Some (v, h')" and rest: "run_actions acts h' = Some h2"
        by (auto split: option.splits)
      from id_wrapper_other [OF step False] Cons.prems(1,2)
      have "g < length h'" and "h' ! g = env_after n k" by simp_all
      moreover from Cons.prems(4) Invoke False have "int (k + calls_of g acts) \<le> 2 ^ 53"
        by (simp add: calls_of_simps)
      ultimately show ?thesis
        using Cons.IH [OF _ _ rest] Invoke False by (simp add: calls_of_simps)
    qed
  qed
qed

text \<open>
  C7 as stated does not hold for every number \<open>startFrom\<close>: the closure adds in doubles.
  Started from \<open>2^53\<close>, three calls return \<open>2^53\<close>, \<open>2^53\<close> and \<open>2^53 + 2\<close>. The
  second value is not \<open>startFrom + 1\<close>, and the third is not the second plus one, neither
  exactly nor as the language adds (\<open>2^53 + 1\<close> is \<open>2^53\<close> there).
\<close>

theorem id_generator_rounds_at_2_53:
  "getIdGeneratorFunction (Num (Fin (2 ^ 53))) []
     = (0, [\<lparr> startFrom = Num (Fin (2 ^ 53)), count = Num (Fin 0), flag = Undefined \<rparr>])
   \<and> id_wrapper 0 [\<lparr> startFrom = Num (Fin (2 ^ 53)), count = Num (Fin 0), flag = Undefined \<rparr>]
     = Some (Num (Fin (2 ^ 53)),
             [\<lparr> startFrom = Num (Fin (2 ^ 53)), count = Num (Fin 0), flag = Bool True \<rparr>])
   \<and> id_wrapper 0 [\<lparr> startFrom = Num (Fin (2 ^ 53)), count = Num (Fin 0), flag = Bool True \<rparr>]
     = Some (Num (Fin (2 ^ 53)),
             [\<lparr> startFrom = Num (Fin (2 ^ 53)), count = Num (Fin 1), flag = Bool True \<rparr>])
   \<and> id_wrapper 0 [\<lparr> startFrom = Num (Fin (2 ^ 53)), count = Num (Fin 1), flag = Bool True \<rparr>]
     = Some (Num (Fin (2 ^ 53 + 2)),
             [\<lparr> startFrom = Num (Fin (2 ^ 53)), count = Num (Fin 2), flag = Bool True \<rparr>])
   \<and> js_add (Num (Fin (2 ^ 53))) (Num (Fin 1)) = Num (Fin (2 ^ 53))
   \<and> (2 ^ 53 + 2 :: int) \<noteq> 2 ^ 53 + 1
   \<and> (2 ^ 53 + 2 :: int) \<noteq> 2 ^ 53"
proof -
  have "num_add (Fin (2 ^ 53)) (Fin 0) = Fin (2 ^ 53)" and "num_add (Fin 1) (Fin 0) = Fin 1"
    and "num_add (Fin 1) (Fin 1) = Fin 2"
    by (simp_all add: num_add_exact)
  then show ?thesis
    using num_add_at_2_53
    by (simp add: getIdGeneratorFunction_def id_wrapper_def Let_def js_arith_Num)
qed

text \<open>
  C7, amended. Let \<open>g\<close> be the closure returned by \<open>getIdGeneratorFunction\<close> for a number
  \<open>n\<close>, and let any program run afterwards: calls of \<open>g\<close>, calls of other closures,
  creations of further generators (also with the same \<open>n\<close>), with fewer than \<open>2^53\<close>
  calls of \<open>g\<close>. Then the next call of \<open>g\<close> returns the sum, as the language adds, of \<open>n\<close>
  and the number of calls of \<open>g\<close> made so far, whatever else the program did. For an
  integer \<open>i\<close> and as long as the values have a magnitude of at most \<open>2^53\<close> this is
  exact: the first call returns \<open>i\<close>, the \<open>m\<close>-th call \<open>i + (m - 1)\<close>, and the call of \<open>g\<close>
  after that, with any activity of other closures in between, returns the previous
  value plus one.
\<close>

theorem id_generator_sequence_in_range:
  "getIdGeneratorFunction (Num n) h0 = (g, h1) \<and> run_actions acts h1 = Some h2
     \<and> int (calls_of g acts) < 2 ^ 53 \<longrightarrow>
     (\<exists>v h3. id_wrapper g h2 = Some (v, h3)
        \<and> v = Num (num_add n (Fin (int (calls_of g acts))))
        \<and> (\<forall>i. n = Fin i \<and> \<bar>i + int (calls_of g acts)\<bar> \<le> 2 ^ 53
              \<longrightarrow> v = Num (Fin (i + int (calls_of g acts))))
        \<and> (\<forall>i acts2 h4. n = Fin i \<and> \<bar>i + int (calls_of g acts)\<bar> \<le> 2 ^ 53
                \<and> \<bar>i + int (calls_of g acts) + 1\<bar> \<le> 2 ^ 53
                \<and> run_actions acts2 h3 = Some h4 \<and> calls_of g acts2 = 0 \<longrightarrow>
              (\<exists>h5. id_wrapper g h4 = Some (js_add v (Num (Fin 1)), h5)
                    \<and> js_add v (Num (Fin 1)) = Num (Fin (i + int (calls_of g acts) + 1)))))"
proof (intro impI)
  assume a: "getIdGeneratorFunction (Num n) h0 = (g, h1) \<and> run_actions acts h1 = Some h2
     \<and> int (calls_of g acts) < 2 ^ 53"
  let ?c = "calls_of g acts"
  let ?v = "Num (num_add n (Fin (int ?c)))"
  let ?h3 = "h2[g := env_after n (Suc ?c)]"
  from a have fresh: "g < length h1" "h1 ! g = env_after n 0"
    using getIdGeneratorFunction_fresh by blast+
  from a have run: "run_actions acts h1 = Some h2" and few: "int ?c < 2 ^ 53"
    by simp_all
  from few have bound: "int (0 + ?c) \<le> 2 ^ 53" and bound1: "int (Suc ?c + 0) \<le> 2 ^ 53"
    by simp_all
  from run_actions_env [OF fresh run bound]
  have now: "g < length h2" "h2 ! g = env_after n ?c"
    by simp_all
  from bound have "int ?c \<le> 2 ^ 53" by simp
  from id_wrapper_step [OF now this]
  have call: "id_wrapper g h2 = Some (?v, ?h3)" .
  have exact: "\<forall>i. n = Fin i \<and> \<bar>i + int ?c\<bar> \<le> 2 ^ 53 \<longrightarrow> ?v = Num (Fin (i + int ?c))"
    by (simp add: num_add_exact)
  have later: "\<exists>h5. id_wrapper g h4 = Some (js_add ?v (Num (Fin 1)), h5)
        \<and> js_add ?v (Num (Fin 1)) = Num (Fin (i + int ?c + 1))"
    if t: "n = Fin i \<and> \<bar>i + int ?c\<bar> \<le> 2 ^ 53 \<and> \<bar>i + int ?c + 1\<bar> \<le> 2 ^ 53
        \<and> run_actions acts2 ?h3 = Some h4 \<and> calls_of g acts2 = 0"
    for i acts2 h4
  proof -
    have "g < length ?h3" and "?h3 ! g = env_after n (Suc ?c)"
      using now(1) by simp_all
    moreover from t have "run_actions acts2 ?h3 = Some h4" and c2: "calls_of g acts2 = 0"
      by blast+
    moreover from bound1 c2 have "int (Suc ?c + calls_of g acts2) \<le> 2 ^ 53"
      by simp
    ultimately have "g < length h4" and "h4 ! g = env_after n (Suc ?c)"
      using run_actions_env [of g ?h3 n "Suc ?c" acts2 h4] c2 by simp_all
    moreover from bound1 have "int (Suc ?c) \<le> 2 ^ 53" by simp
    ultimately have next_call: "id_wrapper g h4
        = Some (Num (num_add n (Fin (int (Suc ?c)))), h4[g := env_after n (Suc (Suc ?c))])"
      by (rule id_wrapper_step)
    from t have ni: "n = Fin i" and "\<bar>i + int ?c + 1\<bar> \<le> 2 ^ 53"
      by blast+
    then have "\<bar>i + int (Suc ?c)\<bar> \<le> 2 ^ 53"
      by (simp add: algebra_simps)
    then have "num_add (Fin i) (Fin (int (Suc ?c))) = Fin (i + int (Suc ?c))"
      by (intro num_add_exact)
    with ni have "num_add n (Fin (int (Suc ?c))) = Fin (i + int ?c + 1)"
      by (simp add: add.assoc add.commute)
    moreover from t have "js_add ?v (Num (Fin 1)) = Num (Fin (i + int ?c + 1))"
      by (simp add: js_arith_Num num_add_exact)
    ultimately show ?thesis
      using next_call by simp
  qed
  from call exact later show "\<exists>v h3. id_wrapper g h2 = Some (v, h3)
        \<and> v = Num (num_add n (Fin (int (calls_of g acts))))
        \<and> (\<forall>i. n = Fin i \<and> \<bar>i + int (calls_of g acts)\<bar> \<le> 2 ^ 53
              \<longrightarrow> v = Num (Fin (i + int (calls_of g acts))))
        \<and> (\<forall>i acts2 h4. n = Fin i \<and> \<bar>i + int (calls_of g acts)\<bar> \<le> 2 ^ 53
                \<and> \<bar>i + int (calls_of g acts) + 1\<bar> \<le> 2 ^ 53
                \<and> run_actions acts2 h3 = Some h4 \<and> calls_of g acts2 = 0 \<longrightarrow>
              (\<exists>h5. id_wrapper g h4 = Some (js_add v (Num (Fin 1)), h5)
                    \<and> js_add v (Num (Fin 1)) = Num (Fin (i + int (calls_of g acts) + 1))))"
    by blast
qed

theorem id_generator_sequence_in_range_witness:
  "(\<exists>h3. id_wrapper 0
          [\<lparr> startFrom = Num (Fin 4), count = Num (Fin 2), flag = Bool True \<rparr>,
           \<lparr> startFrom = Num (Fin 10), count = Num (Fin 0), flag = Bool True \<rparr>]
        = Some (Num (Fin 7), h3))
   \<and> (\<exists>h5. id_wrapper 0
          [\<lparr> startFrom = Num (Fin 4), count = Num (Fin 3), flag = Bool True \<rparr>,
           \<lparr> startFrom = Num (Fin 10), count = Num (Fin 1), flag = Bool True \<rparr>]
        = Some (Num (Fin 8), h5))"
proof -
  let ?fresh4 = "\<lparr> startFrom = Num (Fin 4), count = Num (Fin 0), flag = Undefined \<rparr>"
  let ?acts = "[Invoke 0, Create (Num (Fin 10)), Invoke 1, Invoke 0, Invoke 0]"
  let ?h2 = "[\<lparr> startFrom = Num (Fin 4), count = Num (Fin 2), flag = Bool True \<rparr>,
              \<lparr> startFrom = Num (Fin 10), count = Num (Fin 0), flag = Bool True \<rparr>]"
  let ?h3 = "[\<lparr> startFrom = Num (Fin 4), count = Num (Fin 3), flag = Bool True \<rparr>,
              \<lparr> startFrom = Num (Fin 10), count = Num (Fin 0), flag = Bool True \<rparr>]"
  let ?h4 = "[\<lparr> startFrom = Num (Fin 4), count = Num (Fin 3), flag = Bool True \<rparr>,
              \<lparr> startFrom = Num (Fin 10), count = Num (Fin 1), flag = Bool True \<rparr>]"
  note eval = id_wrapper_def getIdGeneratorFunction_def Let_def js_arith_Num num_add_exact
  have create: "getIdGeneratorFunction (Num (Fin 4)) [] = (0, [?fresh4])"
    by (simp add: getIdGeneratorFunction_def)
  have run: "run_actions ?acts [?fresh4] = Some ?h2"
    by (simp add: eval)
  have calls: "calls_of 0 ?acts = 3"
    by (simp add: calls_of_simps)
  have few: "int (calls_of 0 ?acts) < 2 ^ 53"
    unfolding calls by simp
  have this_call: "id_wrapper 0 ?h2 = Some (Num (Fin 7), ?h3)"
    by (simp add: eval)
  have between: "run_actions [Invoke 1] ?h3 = Some ?h4"
    by (simp add: eval)
  have none: "calls_of 0 [Invoke 1] = 0"
    by (simp add: calls_of_simps)
  from id_generator_sequence_in_range [where n = "Fin 4" and ?h0.0 = "[]" and g = 0
      and ?h1.0 = "[?fresh4]" and acts = ?acts and ?h2.0 = ?h2, rule_format,
      OF conjI [OF create conjI [OF run few]]]
  obtain v h3 where c: "id_wrapper 0 ?h2 = Some (v, h3)"
    and v: "\<forall>i. Fin 4 = Fin i \<and> \<bar>i + int (calls_of 0 ?acts)\<bar> \<le> 2 ^ 53
              \<longrightarrow> v = Num (Fin (i + int (calls_of 0 ?acts)))"
    and l: "\<forall>i acts2 h4. Fin 4 = Fin i \<and> \<bar>i + int (calls_of 0 ?acts)\<bar> \<le> 2 ^ 53
                \<and> \<bar>i + int (calls_of 0 ?acts) + 1\<bar> \<le> 2 ^ 53
                \<and> run_actions acts2 h3 = Some h4 \<and> calls_of 0 acts2 = 0 \<longrightarrow>
              (\<exists>h5. id_wrapper 0 h4 = Some (js_add v (Num (Fin 1)), h5)
                    \<and> js_add v (Num (Fin 1)) = Num (Fin (i + int (calls_of 0 ?acts) + 1)))"
    by blast
  from c this_call have h3: "h3 = ?h3" and v7: "v = Num (Fin 7)"
    by simp_all
  from v [rule_format, of 4] have "v = Num (Fin 7)"
    unfolding calls by simp
  with c have first: "\<exists>h3. id_wrapper 0 ?h2 = Some (Num (Fin 7), h3)"
    by blast
  from l [rule_format, of 4 "[Invoke 1]" ?h4] between none
  have "\<exists>h5. id_wrapper 0 ?h4 = Some (Num (Fin 8), h5)"
    unfolding calls h3 by auto
  with first show ?thesis by blast
qed

end
